theory Spec2Isabelle
  imports Main "HOL-Library.Char_ord" "HOL-Library.List_Lexorder"
begin

section \<open>Entries, Python values and errors\<close>

text \<open>
  The program (\<^verbatim>\<open>src/app.py\<close>) polls an inventory service for scheduled maintenance and
  sends one reminder per entry and day. This theory embeds its core: the due-date
  evaluator \<open>is_due\<close>, the ledger of sent reminders (an SQLite table) and the scheduler
  \<open>filter_and_notify\<close>.

  A maintenance entry is a JSON object decoded into a Python dict. The fields the program
  reads (\<open>id\<close>, \<open>name\<close>, the dates and their alternative spellings) hold JSON strings or
  \<open>null\<close>; a key may also be absent. Strings are sequences of code points below 256.
\<close>

datatype jval = JNull | JStr string

type_synonym entry = "string \<rightharpoonup> jval"

datatype py_error = OverflowError | TypeError

text \<open>\<open>entry.get(k)\<close>: an absent key reads as \<open>None\<close>.\<close>

definition dict_get :: "entry \<Rightarrow> string \<Rightarrow> jval" where
  "dict_get e k = (case e k of None \<Rightarrow> JNull | Some v \<Rightarrow> v)"

text \<open>\<open>entry.get(k, d)\<close>: the default replaces an absent key only, not a stored \<open>None\<close>.\<close>

definition dict_get_default :: "entry \<Rightarrow> string \<Rightarrow> jval \<Rightarrow> jval" where
  "dict_get_default e k d = (case e k of None \<Rightarrow> d | Some v \<Rightarrow> v)"

text \<open>Truth value of a Python object: \<open>None\<close> and the empty string are false.\<close>

fun truthy :: "jval \<Rightarrow> bool" where
  "truthy JNull = False"
| "truthy (JStr s) = (s \<noteq> [])"

text \<open>\<open>a or b\<close> returns \<open>a\<close> when it is true and \<open>b\<close> otherwise.\<close>

definition py_or :: "jval \<Rightarrow> jval \<Rightarrow> jval" where
  "py_or a b = (if truthy a then a else b)"

text \<open>\<open>str(x)\<close>.\<close>

fun py_str :: "jval \<Rightarrow> string" where
  "py_str JNull = ''None''"
| "py_str (JStr s) = s"

text \<open>\<open>x + s\<close> for a string \<open>s\<close>: \<open>None + s\<close> raises \<open>TypeError\<close>.\<close>

fun py_add_str :: "jval \<Rightarrow> string \<Rightarrow> py_error + string" where
  "py_add_str JNull s = Inl TypeError"
| "py_add_str (JStr a) s = Inr (a @ s)"

text \<open>
  \<open>str.isspace\<close> on one character and \<open>str.strip()\<close>: the white space of Python among the
  code points below 256 is TAB..CR, FS..US, SPACE, NEL and NBSP.
\<close>

definition isspace :: "char \<Rightarrow> bool" where
  "isspace c = ((of_char c :: nat) \<in> {9, 10, 11, 12, 13, 28, 29, 30, 31, 32, 133, 160})"

definition strip :: "string \<Rightarrow> string" where
  "strip s = rev (dropWhile isspace (rev (dropWhile isspace s)))"

section \<open>Calendar dates\<close>

text \<open>
  A \<open>datetime.date\<close> is represented by its proleptic Gregorian ordinal (\<open>date.toordinal()\<close>):
  day 1 is 0001-01-01 and the last date, 9999-12-31, is day 3652059. Adding or subtracting
  a \<open>timedelta\<close> raises \<open>OverflowError\<close> when the result leaves that range (and so does
  building a \<open>timedelta\<close> of more than 999999999 days, which leaves the range as well).
\<close>

definition valid_date :: "int \<Rightarrow> bool" where
  "valid_date d = (1 \<le> d \<and> d \<le> 3652059)"

definition date_sub_days :: "int \<Rightarrow> int \<Rightarrow> py_error + int" where
  "date_sub_days d n = (if valid_date (d - n) then Inr (d - n) else Inl OverflowError)"

definition date_add_days :: "int \<Rightarrow> int \<Rightarrow> py_error + int" where
  "date_add_days d n = (if valid_date (d + n) then Inr (d + n) else Inl OverflowError)"

text \<open>The calendar of the \<open>datetime\<close> module: \<open>_is_leap\<close>, \<open>_days_before_year\<close>,
  \<open>_DAYS_IN_MONTH\<close>, \<open>_DAYS_BEFORE_MONTH\<close>, \<open>_days_in_month\<close>, \<open>_days_before_month\<close>,
  \<open>_ymd2ord\<close> and \<open>_ord2ymd\<close>.\<close>

definition is_leap :: "int \<Rightarrow> bool" where
  "is_leap year = (year mod 4 = 0 \<and> (year mod 100 \<noteq> 0 \<or> year mod 400 = 0))"

definition days_before_year :: "int \<Rightarrow> int" where
  "days_before_year year = (let y = year - 1 in y * 365 + y div 4 - y div 100 + y div 400)"

definition DAYS_IN_MONTH :: "int \<Rightarrow> int" where
  "DAYS_IN_MONTH m = [-1, 31, 28, 31, 30, 31, 30, 31, 31, 30, 31, 30, 31] ! nat m"

definition DAYS_BEFORE_MONTH :: "int \<Rightarrow> int" where
  "DAYS_BEFORE_MONTH m = [-1, 0, 31, 59, 90, 120, 151, 181, 212, 243, 273, 304, 334] ! nat m"

definition days_in_month :: "int \<Rightarrow> int \<Rightarrow> int" where
  "days_in_month year month = (if month = 2 \<and> is_leap year then 29 else DAYS_IN_MONTH month)"

definition days_before_month :: "int \<Rightarrow> int \<Rightarrow> int" where
  "days_before_month year month =
     DAYS_BEFORE_MONTH month + (if month > 2 \<and> is_leap year then 1 else 0)"

definition ymd2ord :: "int \<Rightarrow> int \<Rightarrow> int \<Rightarrow> int" where
  "ymd2ord year month day = days_before_year year + days_before_month year month + day"

definition ord2ymd :: "int \<Rightarrow> int \<times> int \<times> int" where
  "ord2ymd ordinal =
     (let n = ordinal - 1;
          n400 = n div 146097; n = n mod 146097;
          n100 = n div 36524; n = n mod 36524;
          n4 = n div 1461; n = n mod 1461;
          n1 = n div 365; n = n mod 365;
          year = n400 * 400 + 1 + (n100 * 100 + n4 * 4 + n1)
      in if n1 = 4 \<or> n100 = 4 then (year - 1, 12, 31)
         else
           let leapyear = (n1 = 3 \<and> (n4 \<noteq> 24 \<or> n100 = 3));
               month = (n + 50) div 32;
               preceding = DAYS_BEFORE_MONTH month + (if month > 2 \<and> leapyear then 1 else 0)
           in if preceding > n
              then let month' = month - 1;
                       preceding' = preceding
                         - (DAYS_IN_MONTH month' + (if month' = 2 \<and> leapyear then 1 else 0))
                   in (year, month', n - preceding' + 1)
              else (year, month, n - preceding + 1))"

text \<open>The triples (year, month, day) that are dates of the calendar.\<close>

definition valid_ymd :: "int \<Rightarrow> int \<Rightarrow> int \<Rightarrow> bool" where
  "valid_ymd y m d =
     (1 \<le> y \<and> y \<le> 9999 \<and> 1 \<le> m \<and> m \<le> 12 \<and> 1 \<le> d \<and> d \<le> days_in_month y m)"

text \<open>\<open>date.isoformat()\<close> is \<open>"%04d-%02d-%02d" % (year, month, day)\<close>; the year of a
  date has at most four digits.\<close>

definition digit_char :: "int \<Rightarrow> char" where
  "digit_char n = ''0123456789'' ! nat n"

definition pad2 :: "int \<Rightarrow> string" where
  "pad2 n = [digit_char (n div 10), digit_char (n mod 10)]"

definition pad4 :: "int \<Rightarrow> string" where
  "pad4 n = [digit_char (n div 1000), digit_char (n div 100 mod 10),
             digit_char (n div 10 mod 10), digit_char (n mod 10)]"

definition isoformat :: "int \<Rightarrow> string" where
  "isoformat d = (case ord2ymd d of (year, month, day) \<Rightarrow>
     pad4 year @ ''-'' @ pad2 month @ ''-'' @ pad2 day)"

text \<open>
  \<open>dateutil.parser.parse\<close> is a library outside the program: the evaluator takes it as the
  parameter \<open>parse\<close>, which gives the calendar date of the parsed \<open>datetime\<close>, or \<open>None\<close>
  where the library raises. \<open>parse_iso\<close> is the instance used to run the evaluator on
  concrete entries: it reads the form \<open>YYYY-MM-DD\<close>, which the library reads as that date,
  and rejects everything else.
\<close>

definition digit_val :: "char \<Rightarrow> int option" where
  "digit_val c = (let n = (of_char c :: nat) in
     if 48 \<le> n \<and> n \<le> 57 then Some (int n - 48) else None)"

definition parse_iso :: "string \<Rightarrow> int option" where
  "parse_iso s =
     (if length s = 10 \<and> s ! 4 = CHR ''-'' \<and> s ! 7 = CHR ''-'' then
        (case map digit_val [s ! 0, s ! 1, s ! 2, s ! 3, s ! 5, s ! 6, s ! 8, s ! 9] of
           [Some a, Some b, Some c, Some d, Some e, Some f, Some g, Some h] \<Rightarrow>
             (let year = 1000 * a + 100 * b + 10 * c + d;
                  month = 10 * e + f;
                  day = 10 * g + h
              in if 1 \<le> year \<and> 1 \<le> month \<and> month \<le> 12
                    \<and> 1 \<le> day \<and> day \<le> days_in_month year month
                 then Some (ymd2ord year month day) else None)
         | _ \<Rightarrow> None)
      else None)"

section \<open>The due-date evaluator\<close>

text \<open>
  The reminder settings are module globals read from the environment (lines 18 to 20);
  here they are a record handed to the evaluator. \<open>datetime.now(timezone.utc).date()\<close> is
  the argument \<open>today\<close>.
\<close>

record config =
  REMIND_START_DAYS_BEFORE :: int
  REMIND_END_DAYS_AFTER :: int
  REMIND_REPEAT_DAYS :: int

text \<open>\<open>dateparser.parse(v)\<close> inside \<open>try\<close>: \<open>None\<close> stands for any exception raised.\<close>

fun try_parse :: "(string \<Rightarrow> int option) \<Rightarrow> jval \<Rightarrow> int option" where
  "try_parse parse JNull = None"
| "try_parse parse (JStr s) = parse s"

text \<open>
  \<open>is_due\<close> (lines 274 to 309). The result is \<open>Inr\<close> of the returned truth value, or \<open>Inl\<close>
  of the exception that leaves the function: the date arithmetic of the window is outside
  every \<open>try\<close>.
\<close>

definition is_due :: "(string \<Rightarrow> int option) \<Rightarrow> config \<Rightarrow> int \<Rightarrow> entry \<Rightarrow> py_error + bool" where
  "is_due parse cfg today entry =
     (let sched = py_or (dict_get entry ''scheduledDate'') (dict_get entry ''scheduled_date'');
          comp = py_or (py_or (dict_get entry ''completedDate'') (dict_get entry ''date''))
                       (dict_get entry ''completed_date'')
      in if \<not> truthy sched then Inr False
         else
          (case try_parse parse sched of
             None \<Rightarrow> Inr False
           | Some sd \<Rightarrow>
              (if truthy comp \<and> try_parse parse comp \<noteq> None then Inr False
               else
                (case date_sub_days sd (REMIND_START_DAYS_BEFORE cfg) of
                   Inl err \<Rightarrow> Inl err
                 | Inr start_date \<Rightarrow>
                    (case date_add_days sd (REMIND_END_DAYS_AFTER cfg) of
                       Inl err \<Rightarrow> Inl err
                     | Inr end_date \<Rightarrow>
                        (if today < start_date \<or> today > end_date then Inr False
                         else if REMIND_REPEAT_DAYS cfg \<le> 0
                           then Inr (start_date \<le> today \<and> today \<le> end_date)
                         else (let delta_days = today - start_date
                               in Inr (delta_days mod REMIND_REPEAT_DAYS cfg = 0))))))))"

text \<open>The values of the local variables \<open>sched\<close> and \<open>comp\<close> of \<open>is_due\<close>.\<close>

definition sched_of :: "entry \<Rightarrow> jval" where
  "sched_of entry = py_or (dict_get entry ''scheduledDate'') (dict_get entry ''scheduled_date'')"

definition comp_of :: "entry \<Rightarrow> jval" where
  "comp_of entry = py_or (py_or (dict_get entry ''completedDate'') (dict_get entry ''date''))
                         (dict_get entry ''completed_date'')"

section \<open>The ledger\<close>

text \<open>
  The table \<open>sent_reminders(id TEXT PRIMARY KEY, last_notified DATE)\<close> is a list of rows
  in insertion order, one row per key. The program stores ISO dates in \<open>last_notified\<close>,
  which SQLite keeps and compares as text. Every operation opens the database, runs one
  statement and commits; the ledger is passed in and the new ledger returned. The store
  is assumed to be reachable, so the \<open>except\<close> branches for a failing database are not
  part of the model.
\<close>

type_synonym ledger = "(string \<times> string) list"

text \<open>\<open>get_last_notified\<close> (lines 133 to 142):
  \<open>SELECT last_notified FROM sent_reminders WHERE id = ?\<close>, then \<open>fetchone\<close>.\<close>

definition get_last_notified :: "ledger \<Rightarrow> string \<Rightarrow> string option" where
  "get_last_notified path entry_id = map_of path entry_id"

text \<open>\<open>mark_notified\<close> (lines 145 to 156):
  \<open>INSERT ... ON CONFLICT(id) DO UPDATE SET last_notified = excluded.last_notified\<close>.\<close>

fun mark_notified :: "ledger \<Rightarrow> string \<Rightarrow> string \<Rightarrow> ledger" where
  "mark_notified [] entry_id when = [(entry_id, when)]"
| "mark_notified ((k, v) # rows) entry_id when =
     (if k = entry_id then (k, when) # rows else (k, v) # mark_notified rows entry_id when)"

text \<open>\<open>reset_reminder\<close> (lines 240 to 253) returns \<open>True\<close> together with the new ledger.\<close>

definition reset_reminder :: "ledger \<Rightarrow> string \<Rightarrow> bool \<times> ledger" where
  "reset_reminder path entry_id =
     (if entry_id = ''all'' then (True, [])
      else (True, filter (\<lambda>(k, v). k \<noteq> entry_id) path))"

text \<open>
  \<open>prune_old_entries\<close> (lines 256 to 271) returns the row count of
  \<open>DELETE FROM sent_reminders WHERE last_notified <= ?\<close> together with the new ledger;
  \<open>today\<close> is the clock reading. An \<open>OverflowError\<close> of the date subtraction is caught by the \<open>except\<close> branch,
  which returns 0.
\<close>

definition prune_old_entries :: "ledger \<Rightarrow> int \<Rightarrow> int \<Rightarrow> int \<times> ledger" where
  "prune_old_entries path today days =
     (if days \<le> 0 then (0, path)
      else
       (case date_sub_days today days of
          Inl err \<Rightarrow> (0, path)
        | Inr c \<Rightarrow>
           (let cutoff = isoformat c
            in (int (length (filter (\<lambda>(k, v). v \<le> cutoff) path)),
                filter (\<lambda>(k, v). \<not> v \<le> cutoff) path))))"

section \<open>The scheduler\<close>

text \<open>The key of an entry, computed at the head of the loop of \<open>filter_and_notify\<close>
  (lines 358 to 361). Concatenating \<open>None\<close> raises \<open>TypeError\<close>.\<close>

definition entry_key :: "entry \<Rightarrow> py_error + string" where
  "entry_key e =
     (let eid = py_or (py_or (dict_get e ''id'') (dict_get e ''ID'')) (dict_get e ''Id'')
      in if truthy eid then Inr (py_str eid) \<comment> \<open>a true \<open>eid\<close> is a string, used as it is\<close>
         else
          (case py_add_str (dict_get_default e ''name'' (JStr [])) ''::'' of
             Inl err \<Rightarrow> Inl err
           | Inr prefix \<Rightarrow>
              Inr (strip (prefix @ py_str (py_or (py_or (dict_get e ''scheduledDate'')
                                                      (dict_get e ''scheduled_date''))
                                               (JStr []))))))"

text \<open>
  The loop over the entries (lines 357 to 371), with \<open>to_notify\<close> as accumulator. The ledger is only read
  here; \<open>today\<close> is the ISO text of the day. An exception leaves the loop at once.
\<close>

fun collect_due ::
  "(string \<Rightarrow> int option) \<Rightarrow> config \<Rightarrow> int \<Rightarrow> ledger \<Rightarrow> (string \<times> entry) list
    \<Rightarrow> entry list \<Rightarrow> py_error + (string \<times> entry) list" where
  "collect_due parse cfg day path to_notify [] = Inr to_notify"
| "collect_due parse cfg day path to_notify (e # entries) =
     (case entry_key e of
        Inl err \<Rightarrow> Inl err
      | Inr eid \<Rightarrow>
         (case is_due parse cfg day e of
            Inl err \<Rightarrow> Inl err
          | Inr due \<Rightarrow>
             (if \<not> due then collect_due parse cfg day path to_notify entries
              else if get_last_notified path eid = Some (isoformat day)
                then collect_due parse cfg day path to_notify entries
              else collect_due parse cfg day path (to_notify @ [(eid, e)]) entries)))"

text \<open>The closing loop (lines 382 and 383): \<open>mark_notified\<close> for every pair of
  \<open>to_notify\<close>, in order.\<close>

fun mark_all :: "ledger \<Rightarrow> (string \<times> entry) list \<Rightarrow> string \<Rightarrow> ledger" where
  "mark_all path [] today = path"
| "mark_all path ((eid, e) # rest) today = mark_all (mark_notified path eid today) rest today"

text \<open>
  \<open>filter_and_notify\<close> (lines 352 to 383) returns the list \<open>to_notify\<close> (whose entries
  are handed to \<open>notify\<close>) and the ledger after the run. Both clock readings of one run, the one of
  \<open>filter_and_notify\<close> and the one of \<open>is_due\<close>, are the same day \<open>day\<close>.
\<close>

definition filter_and_notify ::
  "(string \<Rightarrow> int option) \<Rightarrow> config \<Rightarrow> int \<Rightarrow> ledger \<Rightarrow> entry list
    \<Rightarrow> py_error + ((string \<times> entry) list \<times> ledger)" where
  "filter_and_notify parse cfg day path entries =
     (let today = isoformat day
      in case collect_due parse cfg day path [] entries of
           Inl err \<Rightarrow> Inl err
         | Inr to_notify \<Rightarrow>
            (if to_notify = [] then Inr ([], path)
             else Inr (to_notify, mark_all path to_notify today)))"

text \<open>The ledger whose rows hold the dates \<open>rows\<close>, written as \<open>mark_notified\<close> is
  called by the scheduler: each date as its ISO text.\<close>

definition ledger_of :: "(string \<times> int) list \<Rightarrow> ledger" where
  "ledger_of rows = map (\<lambda>(k, d). (k, isoformat d)) rows"

section \<open>Sample data\<close>

text \<open>The entry and the settings of the scenarios: scheduled on 2024-06-10, reminders from
  three days before to two days after.\<close>

definition june_entry :: entry where
  "june_entry = [''id'' \<mapsto> JStr ''m-1'', ''name'' \<mapsto> JStr ''Replace filter'',
                 ''scheduledDate'' \<mapsto> JStr ''2024-06-10'']"

definition daily_cfg :: config where
  "daily_cfg = \<lparr>REMIND_START_DAYS_BEFORE = 3, REMIND_END_DAYS_AFTER = 2, REMIND_REPEAT_DAYS = 0\<rparr>"

definition every_second_day_cfg :: config where
  "every_second_day_cfg =
     \<lparr>REMIND_START_DAYS_BEFORE = 3, REMIND_END_DAYS_AFTER = 2, REMIND_REPEAT_DAYS = 2\<rparr>"

definition same_day_cfg :: config where
  "same_day_cfg = \<lparr>REMIND_START_DAYS_BEFORE = 0, REMIND_END_DAYS_AFTER = 0, REMIND_REPEAT_DAYS = 0\<rparr>"

text \<open>The same entry with a completion date, with a \<open>date\<close> field only, and with the
  scheduled date under its other spelling.\<close>

definition completed_entry :: entry where
  "completed_entry = june_entry(''completedDate'' \<mapsto> JStr ''2024-06-08'')"

definition dated_entry :: entry where
  "dated_entry = june_entry(''date'' \<mapsto> JStr ''2024-06-08'')"

definition snake_case_entry :: entry where
  "snake_case_entry = [''name'' \<mapsto> JStr ''Replace filter'',
                       ''scheduled_date'' \<mapsto> JStr ''2024-06-10'']"

definition undated_entry :: entry where
  "undated_entry = [''id'' \<mapsto> JStr ''m-4'', ''scheduledDate'' \<mapsto> JStr ''soon'']"

text \<open>A second entry for the same day, with the key \<open>m-2\<close>.\<close>

definition pump_entry :: entry where
  "pump_entry = [''id'' \<mapsto> JStr ''m-2'', ''name'' \<mapsto> JStr ''Check pump'',
                 ''scheduledDate'' \<mapsto> JStr ''2024-06-10'']"

definition blank_entry :: entry where
  "blank_entry = Map.empty"

text \<open>Entries without a usable \<open>id\<close>.\<close>

definition padded_name_entry :: entry where
  "padded_name_entry = [''name'' \<mapsto> JStr '' Filter'', ''scheduledDate'' \<mapsto> JStr ''2024-06-10'']"

definition empty_id_entry :: entry where
  "empty_id_entry = [''id'' \<mapsto> JStr [], ''name'' \<mapsto> JStr ''Filter'',
                     ''scheduledDate'' \<mapsto> JStr ''2024-06-10'']"

definition upper_id_entry :: entry where
  "upper_id_entry = [''ID'' \<mapsto> JStr ''m-3'', ''name'' \<mapsto> JStr ''Filter'',
                     ''scheduledDate'' \<mapsto> JStr ''2024-06-10'']"

definition id_less_entry :: entry where
  "id_less_entry = [''name'' \<mapsto> JStr ''Filter'', ''scheduledDate'' \<mapsto> JStr ''2024-06-10'']"

definition name_only_entry :: entry where
  "name_only_entry = [''name'' \<mapsto> JStr ''Filter'']"

text \<open>An entry scheduled on the last day of the calendar.\<close>

definition last_day_entry :: entry where
  "last_day_entry = [''id'' \<mapsto> JStr ''m-5'', ''name'' \<mapsto> JStr ''Replace roof'',
                     ''scheduledDate'' \<mapsto> JStr ''9999-12-31'']"

text \<open>Ledgers.\<close>

definition june_rows :: "(string \<times> int) list" where
  "june_rows = [(''m-1'', ymd2ord 2024 6 1), (''all'', ymd2ord 2024 6 6), (''m-2'', ymd2ord 2024 6 10)]"

definition june_ledger :: ledger where
  "june_ledger = [(''m-1'', ''2024-06-01''), (''all'', ''2024-06-06''), (''m-2'', ''2024-06-10'')]"

section \<open>ISO texts are ordered as their dates\<close>

text \<open>
  The ledger compares the stored texts, the program thinks in dates. The two orders agree:
  zero-padded decimal fields compare as their numbers, and the conversions between
  ordinals and (year, month, day) are monotone inverses of each other.
\<close>

subsection \<open>Zero-padded numbers\<close>

lemma digit_range:
  fixes i :: int
  assumes "0 \<le> i" "i \<le> 9"
  shows "i = 0 \<or> i = 1 \<or> i = 2 \<or> i = 3 \<or> i = 4 \<or> i = 5 \<or> i = 6 \<or> i = 7 \<or> i = 8 \<or> i = 9"
  using assms by arith

lemma of_char_digit_char:
  assumes "0 \<le> i" "i \<le> 9"
  shows "(of_char (digit_char i) :: nat) = nat (48 + i)"
  using digit_range [OF assms] by (auto simp: digit_char_def)

lemma digit_char_less_iff:
  assumes "0 \<le> i" "i \<le> 9" "0 \<le> j" "j \<le> 9"
  shows "(digit_char i < digit_char j) = (i < j)"
  using assms by (simp add: less_char_def of_char_digit_char)

lemma digit_char_eq_iff:
  assumes "0 \<le> i" "i \<le> 9" "0 \<le> j" "j \<le> 9"
  shows "(digit_char i = digit_char j) = (i = j)"
proof
  assume "digit_char i = digit_char j"
  then have "(of_char (digit_char i) :: nat) = of_char (digit_char j)" by simp
  with assms show "i = j" by (simp add: of_char_digit_char)
qed simp

lemma divmod_less_iff:
  fixes m n :: int
  shows "(m div 100 < n div 100 \<or> m div 100 = n div 100 \<and> m mod 100 < n mod 100) = (m < n)"
proof -
  define qm rm qn rn where "qm = m div 100" and "rm = m mod 100" and "qn = n div 100" and "rn = n mod 100"
  have "m = 100 * qm + rm" "n = 100 * qn + rn" "0 \<le> rm" "rm < 100" "0 \<le> rn" "rn < 100"
    by (simp_all add: qm_def rm_def qn_def rn_def)
  then show ?thesis unfolding qm_def [symmetric] rm_def [symmetric] qn_def [symmetric] rn_def [symmetric]
    by arith
qed

lemma divmod_eq_iff:
  fixes m n :: int
  shows "(m div 100 = n div 100 \<and> m mod 100 = n mod 100) = (m = n)"
  by (metis mult_div_mod_eq)

lemma divmod10_less_iff:
  fixes m n :: int
  shows "(m div 10 < n div 10 \<or> m div 10 = n div 10 \<and> m mod 10 < n mod 10) = (m < n)"
proof -
  define qm rm qn rn where "qm = m div 10" and "rm = m mod 10" and "qn = n div 10" and "rn = n mod 10"
  have "m = 10 * qm + rm" "n = 10 * qn + rn" "0 \<le> rm" "rm < 10" "0 \<le> rn" "rn < 10"
    by (simp_all add: qm_def rm_def qn_def rn_def)
  then show ?thesis unfolding qm_def [symmetric] rm_def [symmetric] qn_def [symmetric] rn_def [symmetric]
    by arith
qed

lemma divmod10_eq_iff:
  fixes m n :: int
  shows "(m div 10 = n div 10 \<and> m mod 10 = n mod 10) = (m = n)"
  by (metis mult_div_mod_eq)

lemma pad2_less_iff:
  assumes "0 \<le> m" "m \<le> 99" "0 \<le> n" "n \<le> 99"
  shows "(pad2 m < pad2 n) = (m < n)"
proof -
  have b: "0 \<le> m div 10" "m div 10 \<le> 9" "0 \<le> n div 10" "n div 10 \<le> 9"
    "0 \<le> m mod 10" "m mod 10 \<le> 9" "0 \<le> n mod 10" "n mod 10 \<le> 9"
    using assms by auto
  have "(pad2 m < pad2 n) =
    (m div 10 < n div 10 \<or> m div 10 = n div 10 \<and> m mod 10 < n mod 10)"
    by (simp add: pad2_def digit_char_less_iff digit_char_eq_iff b)
  also have "\<dots> = (m < n)" by (rule divmod10_less_iff)
  finally show ?thesis .
qed

lemma pad2_eq_iff:
  assumes "0 \<le> m" "m \<le> 99" "0 \<le> n" "n \<le> 99"
  shows "(pad2 m = pad2 n) = (m = n)"
proof -
  have b: "0 \<le> m div 10" "m div 10 \<le> 9" "0 \<le> n div 10" "n div 10 \<le> 9"
    "0 \<le> m mod 10" "m mod 10 \<le> 9" "0 \<le> n mod 10" "n mod 10 \<le> 9"
    using assms by auto
  have "(pad2 m = pad2 n) = (m div 10 = n div 10 \<and> m mod 10 = n mod 10)"
    by (simp add: pad2_def digit_char_eq_iff b)
  also have "\<dots> = (m = n)" by (rule divmod10_eq_iff)
  finally show ?thesis .
qed

lemma pad4_split: "pad4 y = pad2 (y div 100) @ pad2 (y mod 100)"
proof -
  have e1: "y div 100 div 10 = y div 1000"
    using zdiv_zmult2_eq [of 10 y 100] by simp
  have "y mod 100 = 10 * (y div 10 mod 10) + y mod 10"
    using zmod_zmult2_eq [of 10 y 10] by simp
  then have e2: "y mod 100 div 10 = y div 10 mod 10" by simp
  have e3: "y mod 100 mod 10 = y mod 10"
    by (simp add: mod_mod_cancel)
  show ?thesis
    by (simp only: pad4_def pad2_def e1 e2 e3 append.simps)
qed

lemma length_pad2 [simp]: "length (pad2 n) = 2"
  by (simp add: pad2_def)

lemma length_pad4 [simp]: "length (pad4 n) = 4"
  by (simp add: pad4_def)

lemma append_less_iff:
  fixes a a' b b' :: "'a::linorder list"
  assumes "length a = length a'"
  shows "(a @ b < a' @ b') = (a < a' \<or> a = a' \<and> b < b')"
  using assms by (induction a a' rule: list_induct2) auto

lemma append_le_iff:
  fixes a a' b b' :: "'a::linorder list"
  assumes "length a = length a'"
  shows "(a @ b \<le> a' @ b') = (a < a' \<or> a = a' \<and> b \<le> b')"
  using assms by (induction a a' rule: list_induct2) auto

lemma pad4_less_iff:
  assumes "0 \<le> m" "m \<le> 9999" "0 \<le> n" "n \<le> 9999"
  shows "(pad4 m < pad4 n) = (m < n)"
proof -
  have b: "0 \<le> m div 100" "m div 100 \<le> 99" "0 \<le> n div 100" "n div 100 \<le> 99"
    "0 \<le> m mod 100" "m mod 100 \<le> 99" "0 \<le> n mod 100" "n mod 100 \<le> 99"
    using assms by auto
  have "(pad4 m < pad4 n) =
    (m div 100 < n div 100 \<or> m div 100 = n div 100 \<and> m mod 100 < n mod 100)"
    by (simp add: pad4_split append_less_iff pad2_less_iff pad2_eq_iff b)
  also have "\<dots> = (m < n)" by (rule divmod_less_iff)
  finally show ?thesis .
qed

lemma pad4_eq_iff:
  assumes "0 \<le> m" "m \<le> 9999" "0 \<le> n" "n \<le> 9999"
  shows "(pad4 m = pad4 n) = (m = n)"
proof -
  have b: "0 \<le> m div 100" "m div 100 \<le> 99" "0 \<le> n div 100" "n div 100 \<le> 99"
    "0 \<le> m mod 100" "m mod 100 \<le> 99" "0 \<le> n mod 100" "n mod 100 \<le> 99"
    using assms by auto
  have "(pad4 m = pad4 n) = (m div 100 = n div 100 \<and> m mod 100 = n mod 100)"
    by (simp add: pad4_split pad2_eq_iff b)
  also have "\<dots> = (m = n)" by (rule divmod_eq_iff)
  finally show ?thesis .
qed

lemma iso_text_le_iff:
  assumes "0 \<le> y" "y \<le> 9999" "0 \<le> y'" "y' \<le> 9999"
    "0 \<le> m" "m \<le> 99" "0 \<le> m'" "m' \<le> 99"
    "0 \<le> d" "d \<le> 99" "0 \<le> d'" "d' \<le> 99"
  shows "(pad4 y @ ''-'' @ pad2 m @ ''-'' @ pad2 d \<le> pad4 y' @ ''-'' @ pad2 m' @ ''-'' @ pad2 d')
     = (y < y' \<or> y = y' \<and> (m < m' \<or> m = m' \<and> d \<le> d'))"
proof -
  have "(pad2 d \<le> pad2 d') = (d \<le> d')"
    using pad2_less_iff [of d d'] pad2_eq_iff [of d d'] assms by (auto simp: le_less)
  then have "(pad2 m @ ''-'' @ pad2 d \<le> pad2 m' @ ''-'' @ pad2 d') = (m < m' \<or> m = m' \<and> d \<le> d')"
    using assms by (simp add: append_le_iff pad2_less_iff pad2_eq_iff del: append.simps)
  then show ?thesis
    using assms by (simp add: append_le_iff pad4_less_iff pad4_eq_iff del: append.simps)
qed

subsection \<open>From (year, month, day) to the ordinal\<close>

lemma div_step_dvd:
  fixes y k :: int
  assumes "0 < k" "y mod k = 0"
  shows "y div k = (y - 1) div k + 1"
proof -
  have "y = k * (y div k)"
    using assms(2) by (metis add.right_neutral mult_div_mod_eq)
  then have "y - 1 = k * (y div k - 1) + (k - 1)"
    by (simp add: algebra_simps)
  then have "(y - 1) div k = y div k - 1"
    using assms(1) by (intro int_div_pos_eq [where r = "k - 1"]) auto
  then show ?thesis by simp
qed

lemma div_step_ndvd:
  fixes y k :: int
  assumes "0 < k" "y mod k \<noteq> 0"
  shows "y div k = (y - 1) div k"
proof -
  have "0 \<le> y mod k" "y mod k < k" using assms(1) by simp_all
  then have "1 \<le> y mod k" using assms(2) by linarith
  have "y - 1 = k * (y div k) + (y mod k - 1)" by simp
  then have "(y - 1) div k = y div k"
    using assms(1) \<open>1 \<le> y mod k\<close> \<open>y mod k < k\<close>
    by (intro int_div_pos_eq [where r = "y mod k - 1"]) auto
  then show ?thesis by simp
qed

lemma mod_100_4: "(y::int) mod 100 = 0 \<Longrightarrow> y mod 4 = 0"
  using mod_mod_cancel [of 4 100 y] by simp

lemma mod_400_100: "(y::int) mod 400 = 0 \<Longrightarrow> y mod 100 = 0"
  using mod_mod_cancel [of 100 400 y] by simp

lemma days_before_year_step:
  "days_before_year (y + 1) = days_before_year y + (if is_leap y then 366 else 365)"
proof -
  have d: "days_before_year (y + 1) - days_before_year y =
      365 + (y div 4 - (y - 1) div 4) - (y div 100 - (y - 1) div 100) + (y div 400 - (y - 1) div 400)"
    by (simp add: days_before_year_def Let_def algebra_simps)
  have pos: "(0::int) < 4" "(0::int) < 100" "(0::int) < 400" by simp_all
  consider (a) "y mod 4 \<noteq> 0" | (b) "y mod 4 = 0" "y mod 100 \<noteq> 0"
    | (c) "y mod 100 = 0" "y mod 400 \<noteq> 0" | (d) "y mod 400 = 0"
    by argo
  then show ?thesis
  proof cases
    case a
    then have n: "y mod 100 \<noteq> 0" "y mod 400 \<noteq> 0"
      using mod_100_4 [of y] mod_400_100 [of y] by argo+
    have l: "\<not> is_leap y" using a by (simp only: is_leap_def simp_thms)
    note e = div_step_ndvd [OF pos(1) a] div_step_ndvd [OF pos(2) n(1)]
      div_step_ndvd [OF pos(3) n(2)]
    have "days_before_year (y + 1) = days_before_year y + 365" using d e by linarith
    with l show ?thesis by simp
  next
    case b
    then have n: "y mod 400 \<noteq> 0" using mod_400_100 [of y] by argo
    have l: "is_leap y" using b by (simp only: is_leap_def simp_thms)
    note e = div_step_dvd [OF pos(1) b(1)] div_step_ndvd [OF pos(2) b(2)]
      div_step_ndvd [OF pos(3) n]
    have "days_before_year (y + 1) = days_before_year y + 366" using d e by linarith
    with l show ?thesis by simp
  next
    case c
    then have n: "y mod 4 = 0" using mod_100_4 [of y] by argo
    have l: "\<not> is_leap y" using c n by (simp only: is_leap_def simp_thms)
    note e = div_step_dvd [OF pos(1) n] div_step_dvd [OF pos(2) c(1)]
      div_step_ndvd [OF pos(3) c(2)]
    have "days_before_year (y + 1) = days_before_year y + 365" using d e by linarith
    with l show ?thesis by simp
  next
    case d2: d
    then have n: "y mod 100 = 0" using mod_400_100 [of y] by argo
    then have n2: "y mod 4 = 0" using mod_100_4 [of y] by argo
    have l: "is_leap y" using d2 n n2 by (simp only: is_leap_def simp_thms)
    note e = div_step_dvd [OF pos(1) n2] div_step_dvd [OF pos(2) n]
      div_step_dvd [OF pos(3) d2]
    have "days_before_year (y + 1) = days_before_year y + 366" using d e by linarith
    with l show ?thesis by simp
  qed
qed

lemma days_before_year_mono: "y \<le> y' \<Longrightarrow> days_before_year y \<le> days_before_year y'"
proof (induction y' rule: int_ge_induct)
  case base
  show ?case by simp
next
  case (step i)
  then show ?case by (simp add: days_before_year_step)
qed

lemma days_before_year_less:
  assumes "y < y'"
  shows "days_before_year y + (if is_leap y then 366 else 365) \<le> days_before_year y'"
  using days_before_year_mono [of "y + 1" y'] assms by (simp add: days_before_year_step)

lemma month_range:
  fixes m :: int
  assumes "1 \<le> m" "m \<le> 12"
  shows "m = 1 \<or> m = 2 \<or> m = 3 \<or> m = 4 \<or> m = 5 \<or> m = 6 \<or> m = 7 \<or> m = 8 \<or> m = 9
     \<or> m = 10 \<or> m = 11 \<or> m = 12"
  using assms by arith

lemma days_before_month_next:
  assumes "1 \<le> m" "m \<le> 11"
  shows "days_before_month y (m + 1) = days_before_month y m + days_in_month y m"
proof -
  have "m = 1 \<or> m = 2 \<or> m = 3 \<or> m = 4 \<or> m = 5 \<or> m = 6 \<or> m = 7 \<or> m = 8 \<or> m = 9
     \<or> m = 10 \<or> m = 11" using assms by arith
  then show ?thesis
    by (auto simp: days_before_month_def days_in_month_def DAYS_BEFORE_MONTH_def DAYS_IN_MONTH_def)
qed

lemma days_in_month_pos:
  assumes "1 \<le> m" "m \<le> 12"
  shows "28 \<le> days_in_month y m" "days_in_month y m \<le> 31"
  using month_range [OF assms]
  by (auto simp: days_in_month_def DAYS_IN_MONTH_def)

lemma days_before_month_mono:
  assumes "1 \<le> m" "m \<le> m'" "m' \<le> 12"
  shows "days_before_month y m \<le> days_before_month y m'"
  using assms(2,1,3)
proof (induction m' rule: int_ge_induct)
  case base
  show ?case by simp
next
  case (step i)
  then show ?case
    using days_before_month_next [of i y] days_in_month_pos [of i y] by simp
qed

lemma days_before_month_less:
  assumes "1 \<le> m" "m < m'" "m' \<le> 12"
  shows "days_before_month y m + days_in_month y m \<le> days_before_month y m'"
  using days_before_month_mono [of "m + 1" m' y] days_before_month_next [of m y] assms by simp

lemma days_before_month_bounds:
  assumes "1 \<le> m" "m \<le> 12"
  shows "0 \<le> days_before_month y m"
    "days_before_month y m + days_in_month y m \<le> (if is_leap y then 366 else 365)"
  using month_range [OF assms]
  by (auto simp: days_before_month_def days_in_month_def DAYS_BEFORE_MONTH_def DAYS_IN_MONTH_def)

lemma ymd2ord_less:
  assumes "valid_ymd y m d" "valid_ymd y' m' d'"
    and "y < y' \<or> y = y' \<and> (m < m' \<or> m = m' \<and> d < d')"
  shows "ymd2ord y m d < ymd2ord y' m' d'"
proof -
  from assms(1,2) have v: "1 \<le> m" "m \<le> 12" "1 \<le> d" "d \<le> days_in_month y m"
    "1 \<le> m'" "m' \<le> 12" "1 \<le> d'" "d' \<le> days_in_month y' m'"
    by (simp_all add: valid_ymd_def)
  consider "y < y'" | "y = y'" "m < m'" | "y = y'" "m = m'" "d < d'"
    using assms(3) by blast
  then show ?thesis
  proof cases
    case 1
    have "days_before_month y m + d \<le> (if is_leap y then 366 else 365)"
      using days_before_month_bounds(2) [of m y] v by (simp split: if_splits)
    moreover have "0 \<le> days_before_month y' m'"
      using days_before_month_bounds(1) [of m' y'] v by simp
    ultimately show ?thesis
      using days_before_year_less [OF 1] v by (simp add: ymd2ord_def split: if_splits)
  next
    case 2
    then show ?thesis
      using days_before_month_less [of m m' y] v by (simp add: ymd2ord_def)
  next
    case 3
    then show ?thesis by (simp add: ymd2ord_def)
  qed
qed

subsection \<open>From the ordinal to (year, month, day)\<close>

lemma days_before_year_decomp:
  assumes "0 \<le> b" "b \<le> 3" "0 \<le> c" "c \<le> 24" "0 \<le> e" "e \<le> 3"
  shows "days_before_year (400 * a + 100 * b + 4 * c + e + 1)
    = 146097 * a + 36524 * b + 1461 * c + 365 * e"
proof -
  define Y where "Y = 400 * a + 100 * b + 4 * c + e"
  have "Y div 4 = 100 * a + 25 * b + c"
    by (rule int_div_pos_eq [where r = e]) (use assms in \<open>simp_all add: Y_def\<close>)
  moreover have "Y div 100 = 4 * a + b"
    by (rule int_div_pos_eq [where r = "4 * c + e"]) (use assms in \<open>simp_all add: Y_def\<close>)
  moreover have "Y div 400 = a"
    by (rule int_div_pos_eq [where r = "100 * b + 4 * c + e"]) (use assms in \<open>simp_all add: Y_def\<close>)
  ultimately show ?thesis
    by (simp add: days_before_year_def Let_def Y_def [symmetric]) (simp add: Y_def)
qed

lemma is_leap_decomp:
  assumes "0 \<le> b" "b \<le> 3" "0 \<le> c" "c \<le> 24" "0 \<le> e" "e \<le> 3"
  shows "is_leap (400 * a + 100 * b + 4 * c + e + 1) = (e = 3 \<and> (c \<noteq> 24 \<or> b = 3))"
proof -
  define y where "y = 400 * a + 100 * b + 4 * c + e + 1"
  have "is_leap y = (e = 3 \<and> (c \<noteq> 24 \<or> b = 3))"
  proof (cases "e = 3")
    case False
    have "y mod 4 = e + 1"
      by (rule int_mod_pos_eq [where q = "100 * a + 25 * b + c"])
        (use assms False in \<open>simp_all add: y_def\<close>)
    then have "y mod 4 \<noteq> 0" using assms by simp
    then show ?thesis using False by (simp add: is_leap_def)
  next
    case e: True
    have m4: "y mod 4 = 0"
      by (rule int_mod_pos_eq [where q = "100 * a + 25 * b + c + 1"])
        (use e in \<open>simp_all add: y_def\<close>)
    show ?thesis
    proof (cases "c = 24")
      case False
      have "y mod 100 = 4 * c + 4"
        by (rule int_mod_pos_eq [where q = "4 * a + b"])
          (use assms e False in \<open>simp_all add: y_def\<close>)
      then have "y mod 100 \<noteq> 0" using assms by simp
      then show ?thesis using e False m4 by (simp add: is_leap_def)
    next
      case c: True
      have m100: "y mod 100 = 0"
        by (rule int_mod_pos_eq [where q = "4 * a + b + 1"])
          (use e c in \<open>simp_all add: y_def\<close>)
      show ?thesis
      proof (cases "b = 3")
        case True
        have "y mod 400 = 0"
          by (rule int_mod_pos_eq [where q = "a + 1"])
            (use e c True in \<open>simp_all add: y_def\<close>)
        then show ?thesis using e c True m4 by (simp add: is_leap_def)
      next
        case False
        have "y mod 400 = 100 * b + 100"
          by (rule int_mod_pos_eq [where q = a])
            (use assms e c False in \<open>simp_all add: y_def\<close>)
        then have "y mod 400 \<noteq> 0" using assms by simp
        then show ?thesis using e c False m4 m100 by (simp add: is_leap_def)
      qed
    qed
  qed
  then show ?thesis by (simp only: y_def)
qed

lemma month_index_range:
  fixes r k :: int
  assumes "0 \<le> r" "r \<le> 364" "32 * k \<le> r + 50" "r + 50 < 32 * k + 32"
  shows "k = 1 \<or> k = 2 \<or> k = 3 \<or> k = 4 \<or> k = 5 \<or> k = 6 \<or> k = 7 \<or> k = 8 \<or> k = 9
     \<or> k = 10 \<or> k = 11 \<or> k = 12"
proof -
  have "1 \<le> k" "k \<le> 12" using assms by linarith+
  then show ?thesis by (rule month_range)
qed

lemma month_day_index:
  assumes "0 \<le> r" "r \<le> 364" "32 * k \<le> r + 50" "r + 50 < 32 * k + 32"
  shows "\<exists>m d.
    (let month = k;
         preceding = DAYS_BEFORE_MONTH month + (if month > 2 \<and> leapyear then 1 else 0)
     in if preceding > r
        then let month' = month - 1;
                 preceding' = preceding
                   - (DAYS_IN_MONTH month' + (if month' = 2 \<and> leapyear then 1 else 0))
             in (y, month', r - preceding' + 1)
        else (y, month, r - preceding + 1)) = (y, m, d)
    \<and> 1 \<le> m \<and> m \<le> 12 \<and> 1 \<le> d
    \<and> d \<le> (if m = 2 \<and> leapyear then 29 else DAYS_IN_MONTH m)
    \<and> DAYS_BEFORE_MONTH m + (if m > 2 \<and> leapyear then 1 else 0) + d = r + 1"
  using month_index_range [OF assms] unfolding Let_def using assms
  by (elim disjE) (simp_all add: DAYS_BEFORE_MONTH_def DAYS_IN_MONTH_def)

lemma month_day:
  assumes "0 \<le> r" "r \<le> 364"
  shows "\<exists>m d.
    (let month = (r + 50) div 32;
         preceding = DAYS_BEFORE_MONTH month + (if month > 2 \<and> leapyear then 1 else 0)
     in if preceding > r
        then let month' = month - 1;
                 preceding' = preceding
                   - (DAYS_IN_MONTH month' + (if month' = 2 \<and> leapyear then 1 else 0))
             in (y, month', r - preceding' + 1)
        else (y, month, r - preceding + 1)) = (y, m, d)
    \<and> 1 \<le> m \<and> m \<le> 12 \<and> 1 \<le> d
    \<and> d \<le> (if m = 2 \<and> leapyear then 29 else DAYS_IN_MONTH m)
    \<and> DAYS_BEFORE_MONTH m + (if m > 2 \<and> leapyear then 1 else 0) + d = r + 1"
proof (rule month_day_index [OF assms])
  show "32 * ((r + 50) div 32) \<le> r + 50" by (simp add: algebra_simps)
  show "r + 50 < 32 * ((r + 50) div 32) + 32" by (simp add: algebra_simps)
qed

lemma ord2ymd_valid:
  assumes "valid_date n"
  shows "\<exists>y m d. ord2ymd n = (y, m, d) \<and> valid_ymd y m d \<and> ymd2ord y m d = n"
proof -
  define n0 where "n0 = n - 1"
  define a where "a = n0 div 146097"
  define r1 where "r1 = n0 mod 146097"
  define b where "b = r1 div 36524"
  define r2 where "r2 = r1 mod 36524"
  define c where "c = r2 div 1461"
  define r3 where "r3 = r2 mod 1461"
  define e where "e = r3 div 365"
  define r4 where "r4 = r3 mod 365"
  have n0: "0 \<le> n0" "n0 \<le> 3652058"
    using assms by (simp_all add: valid_date_def n0_def)
  have d1: "n0 = 146097 * a + r1" "0 \<le> r1" "r1 < 146097"
    by (simp_all add: a_def r1_def)
  have d2: "r1 = 36524 * b + r2" "0 \<le> r2" "r2 < 36524"
    by (simp_all add: b_def r2_def)
  have d3: "r2 = 1461 * c + r3" "0 \<le> r3" "r3 < 1461"
    by (simp_all add: c_def r3_def)
  have d4: "r3 = 365 * e + r4" "0 \<le> r4" "r4 < 365"
    by (simp_all add: e_def r4_def)
  have ra: "0 \<le> a" "a \<le> 24" using n0 d1 by linarith+
  have rb: "0 \<le> b" "b \<le> 4" using d1 d2 by linarith+
  have rc: "0 \<le> c" "c \<le> 24" using d2 d3 by linarith+
  have re: "0 \<le> e" "e \<le> 4" using d3 d4 by linarith+
  have u: "ord2ymd n =
     (if e = 4 \<or> b = 4 then (a * 400 + 1 + (b * 100 + c * 4 + e) - 1, 12, 31)
      else
        let leapyear = (e = 3 \<and> (c \<noteq> 24 \<or> b = 3));
            month = (r4 + 50) div 32;
            preceding = DAYS_BEFORE_MONTH month + (if month > 2 \<and> leapyear then 1 else 0)
        in if preceding > r4
           then let month' = month - 1;
                    preceding' = preceding
                      - (DAYS_IN_MONTH month' + (if month' = 2 \<and> leapyear then 1 else 0))
                in (a * 400 + 1 + (b * 100 + c * 4 + e), month', r4 - preceding' + 1)
           else (a * 400 + 1 + (b * 100 + c * 4 + e), month, r4 - preceding + 1))"
    by (simp only: ord2ymd_def Let_def n0_def a_def r1_def b_def r2_def c_def r3_def e_def r4_def)
  consider (century) "b = 4" | (leapday) "b \<le> 3" "e = 4" | (plain) "b \<le> 3" "e \<le> 3"
    using rb re by linarith
  then show ?thesis
  proof cases
    case century
    then have z: "r2 = 0" "c = 0" "r3 = 0" "e = 0" "r4 = 0" "r1 = 146096"
      using d1 d2 d3 d4 rc re by linarith+
    have a23: "a \<le> 23" using n0 d1 z by linarith
    define y where "y = 400 * a + 400"
    have y: "y = 400 * a + 100 * 3 + 4 * 24 + 3 + 1" by (simp add: y_def)
    have l: "is_leap y" unfolding y by (subst is_leap_decomp) simp_all
    have dby: "days_before_year y = 146097 * a + 145731"
      unfolding y by (subst days_before_year_decomp) simp_all
    have "ord2ymd n = (y, 12, 31)" using u century z by (simp add: y_def)
    moreover have "valid_ymd y 12 31"
      using ra a23 by (simp add: valid_ymd_def y_def days_in_month_def DAYS_IN_MONTH_def)
    moreover have "ymd2ord y 12 31 = n"
      using l dby d1 z
      by (simp add: ymd2ord_def days_before_month_def DAYS_BEFORE_MONTH_def n0_def)
    ultimately show ?thesis by blast
  next
    case leapday
    then have z: "r4 = 0" "r3 = 1460" using d4 d3 by linarith+
    have c23: "c \<le> 23" using d3 d2 z by linarith
    define y where "y = 400 * a + 100 * b + 4 * c + 4"
    have y: "y = 400 * a + 100 * b + 4 * c + 3 + 1" by (simp add: y_def)
    have l: "is_leap y" unfolding y using rb rc leapday c23 by (subst is_leap_decomp) simp_all
    have dby: "days_before_year y = 146097 * a + 36524 * b + 1461 * c + 1095"
      unfolding y using rb rc leapday by (subst days_before_year_decomp) simp_all
    have "ord2ymd n = (y, 12, 31)" using u leapday by (simp add: y_def)
    moreover have "y \<le> 9999" using n0 d1 d2 d3 z rb rc leapday unfolding y_def by linarith
    then have "valid_ymd y 12 31"
      using ra rb rc by (simp add: valid_ymd_def y_def days_in_month_def DAYS_IN_MONTH_def)
    moreover have "ymd2ord y 12 31 = n"
      using l dby d1 d2 d3 z
      by (simp add: ymd2ord_def days_before_month_def DAYS_BEFORE_MONTH_def n0_def)
    ultimately show ?thesis by blast
  next
    case plain
    define y where "y = 400 * a + 100 * b + 4 * c + e + 1"
    define leapyear where "leapyear = (e = 3 \<and> (c \<noteq> 24 \<or> b = 3))"
    have l: "is_leap y = leapyear"
      unfolding y_def leapyear_def using rb rc re plain by (intro is_leap_decomp) simp_all
    have dby: "days_before_year y = 146097 * a + 36524 * b + 1461 * c + 365 * e"
      unfolding y_def using rb rc re plain by (intro days_before_year_decomp) simp_all
    have ne: "\<not> (e = 4 \<or> b = 4)" using plain by simp
    have yy: "a * 400 + 1 + (b * 100 + c * 4 + e) = y" by (simp add: y_def)
    from month_day [of r4 leapyear y] d4 obtain m d where
      md: "(let month = (r4 + 50) div 32;
         preceding = DAYS_BEFORE_MONTH month + (if month > 2 \<and> leapyear then 1 else 0)
     in if preceding > r4
        then let month' = month - 1;
                 preceding' = preceding
                   - (DAYS_IN_MONTH month' + (if month' = 2 \<and> leapyear then 1 else 0))
             in (y, month', r4 - preceding' + 1)
        else (y, month, r4 - preceding + 1)) = (y, m, d)"
      and r: "1 \<le> m" "m \<le> 12" "1 \<le> d"
        "d \<le> (if m = 2 \<and> leapyear then 29 else DAYS_IN_MONTH m)"
        "DAYS_BEFORE_MONTH m + (if m > 2 \<and> leapyear then 1 else 0) + d = r4 + 1"
      by force
    have "ord2ymd n = (y, m, d)"
      using md unfolding u yy leapyear_def [symmetric] Let_def by (simp only: ne if_False)
    moreover have "y \<le> 9999" using n0 d1 d2 d3 d4 rb rc re plain unfolding y_def by linarith
    then have "valid_ymd y m d"
      using r ra rb rc re l by (simp add: valid_ymd_def days_in_month_def y_def)
    moreover have "ymd2ord y m d = n"
      using r(5) l dby d1 d2 d3 d4
      by (simp add: ymd2ord_def days_before_month_def n0_def)
    ultimately show ?thesis by blast
  qed
qed

lemma isoformat_le_iff:
  assumes "valid_date a" "valid_date b"
  shows "(isoformat a \<le> isoformat b) = (a \<le> b)"
proof -
  from ord2ymd_valid [OF assms(1)] obtain y m d
    where a: "ord2ymd a = (y, m, d)" "valid_ymd y m d" "ymd2ord y m d = a" by blast
  from ord2ymd_valid [OF assms(2)] obtain y' m' d'
    where b: "ord2ymd b = (y', m', d')" "valid_ymd y' m' d'" "ymd2ord y' m' d' = b" by blast
  have r: "0 \<le> y" "y \<le> 9999" "0 \<le> m" "m \<le> 99" "0 \<le> d" "d \<le> 99"
    using a(2) days_in_month_pos(2) [of m y] by (simp_all add: valid_ymd_def)
  have r': "0 \<le> y'" "y' \<le> 9999" "0 \<le> m'" "m' \<le> 99" "0 \<le> d'" "d' \<le> 99"
    using b(2) days_in_month_pos(2) [of m' y'] by (simp_all add: valid_ymd_def)
  have "(isoformat a \<le> isoformat b)
      = (y < y' \<or> y = y' \<and> (m < m' \<or> m = m' \<and> d \<le> d'))"
    unfolding isoformat_def a(1) b(1) prod.case
    by (rule iso_text_le_iff) (use r r' in simp_all)
  also have "\<dots> = (a \<le> b)"
  proof (cases "y < y' \<or> y = y' \<and> (m < m' \<or> m = m' \<and> d < d')")
    case True
    from ymd2ord_less [OF a(2) b(2) True] have "a < b" by (simp add: a(3) b(3))
    with True show ?thesis by auto
  next
    case False
    show ?thesis
    proof (cases "y = y' \<and> m = m' \<and> d = d'")
      case True
      then have "a = b" using a(3) b(3) by simp
      with True show ?thesis by simp
    next
      case ne: False
      with False have "y' < y \<or> y' = y \<and> (m' < m \<or> m' = m \<and> d' < d)" by linarith
      from ymd2ord_less [OF b(2) a(2) this] have "b < a" by (simp add: a(3) b(3))
      with False ne show ?thesis by auto
    qed
  qed
  finally show ?thesis .
qed

section \<open>Properties of the due-date evaluator\<close>

lemma is_due_window:
  assumes "truthy (sched_of entry)" "try_parse parse (sched_of entry) = Some sd"
    and "\<not> truthy (comp_of entry) \<or> try_parse parse (comp_of entry) = None"
    and "valid_date (sd - REMIND_START_DAYS_BEFORE cfg)"
    and "valid_date (sd + REMIND_END_DAYS_AFTER cfg)"
  shows "is_due parse cfg today entry =
     Inr (sd - REMIND_START_DAYS_BEFORE cfg \<le> today \<and> today \<le> sd + REMIND_END_DAYS_AFTER cfg
          \<and> (REMIND_REPEAT_DAYS cfg \<le> 0
              \<or> (today - (sd - REMIND_START_DAYS_BEFORE cfg)) mod REMIND_REPEAT_DAYS cfg = 0))"
  using assms unfolding sched_of_def comp_of_def
  by (auto simp add: is_due_def Let_def date_sub_days_def date_add_days_def)

text \<open>Python has no date before year 1 or after year 9999: a window that would begin or
  end there is not computed, the subtraction or the addition raises.\<close>

lemma is_due_overflow:
  assumes "truthy (sched_of entry)" "try_parse parse (sched_of entry) = Some sd"
    and "\<not> truthy (comp_of entry) \<or> try_parse parse (comp_of entry) = None"
    and "\<not> valid_date (sd - REMIND_START_DAYS_BEFORE cfg)
       \<or> \<not> valid_date (sd + REMIND_END_DAYS_AFTER cfg)"
  shows "is_due parse cfg today entry = Inl OverflowError"
  using assms unfolding sched_of_def comp_of_def
  by (auto simp add: is_due_def Let_def date_sub_days_def date_add_days_def)

lemma is_due_completed:
  assumes "truthy (comp_of entry)" "try_parse parse (comp_of entry) \<noteq> None"
  shows "is_due parse cfg today entry = Inr False"
  using assms unfolding comp_of_def
  by (simp add: is_due_def Let_def split: option.splits)

lemma sched_of_primary:
  assumes "entry ''scheduledDate'' = Some (JStr s)" "s \<noteq> []"
  shows "sched_of entry = JStr s"
  using assms by (simp add: sched_of_def dict_get_def py_or_def)

lemma cadence_iff:
  fixes t start k :: int
  assumes "0 < k" "start \<le> t"
  shows "((t - start) mod k = 0) = (\<exists>i::nat. t = start + int i * k)"
proof
  assume "(t - start) mod k = 0"
  then have "t - start = k * ((t - start) div k)" by auto
  moreover have "0 \<le> (t - start) div k" using assms by (simp add: pos_imp_zdiv_nonneg_iff)
  ultimately have "t = start + int (nat ((t - start) div k)) * k" by (simp add: mult.commute)
  then show "\<exists>i::nat. t = start + int i * k" ..
next
  assume "\<exists>i::nat. t = start + int i * k"
  then show "(t - start) mod k = 0" by auto
qed

lemma parse_iso_june:
  "parse_iso ''2024-06-10'' = Some (ymd2ord 2024 6 10)"
  "parse_iso ''2024-06-08'' = Some (ymd2ord 2024 6 8)"
  "parse_iso ''soon'' = None"
  by (simp_all add: parse_iso_def digit_val_def days_in_month_def is_leap_def DAYS_IN_MONTH_def)

lemma ymd2ord_june: "ymd2ord 2024 6 d = 739037 + d"
  by (simp add: ymd2ord_def days_before_year_def days_before_month_def is_leap_def
      DAYS_BEFORE_MONTH_def)

lemma ymd2ord_last_december: "ymd2ord 9999 12 d = 3652028 + d"
  by (simp add: ymd2ord_def days_before_year_def days_before_month_def is_leap_def
      DAYS_BEFORE_MONTH_def)

lemma parse_iso_last_day: "parse_iso ''9999-12-31'' = Some (ymd2ord 9999 12 31)"
  by (simp add: parse_iso_def digit_val_def days_in_month_def is_leap_def DAYS_IN_MONTH_def)

lemma last_day_overflow:
  assumes "0 < REMIND_END_DAYS_AFTER cfg"
  shows "is_due parse_iso cfg today last_day_entry = Inl OverflowError"
proof (rule is_due_overflow)
  have s: "sched_of last_day_entry = JStr ''9999-12-31''"
    by (simp add: sched_of_def last_day_entry_def dict_get_def py_or_def)
  show "truthy (sched_of last_day_entry)" by (simp add: s)
  show "try_parse parse_iso (sched_of last_day_entry) = Some (ymd2ord 9999 12 31)"
    by (simp add: s parse_iso_last_day)
  show "\<not> truthy (comp_of last_day_entry)
      \<or> try_parse parse_iso (comp_of last_day_entry) = None"
    by (simp add: comp_of_def last_day_entry_def dict_get_def py_or_def)
  show "\<not> valid_date (ymd2ord 9999 12 31 - REMIND_START_DAYS_BEFORE cfg)
      \<or> \<not> valid_date (ymd2ord 9999 12 31 + REMIND_END_DAYS_AFTER cfg)"
    using assms by (simp add: ymd2ord_last_december valid_date_def)
qed

text \<open>
  The daily policy within the calendar. Take an entry whose \<open>scheduledDate\<close> is a non-empty text
  that parses to the date \<open>sd\<close>, with no completion (the completion value \<open>comp\<close> of
  \<open>is_due\<close> is empty or does not parse), and settings with \<open>REMIND_REPEAT_DAYS \<le> 0\<close>.
  Let \<open>start = sd - REMIND_START_DAYS_BEFORE\<close> and \<open>end = sd + REMIND_END_DAYS_AFTER\<close>,
  both dates of the calendar. Then on every day \<open>is_due\<close> returns, and it returns
  \<open>True\<close> exactly when \<open>start \<le> today \<le> end\<close>, so \<open>False\<close> on every day outside the
  closed window. With both offsets 0 the entry is due on \<open>sd\<close> itself and on no other
  day.
\<close>

theorem is_due_daily_window:
  assumes "entry ''scheduledDate'' = Some (JStr s)" "s \<noteq> []" "parse s = Some sd"
    and "\<not> truthy (comp_of entry) \<or> try_parse parse (comp_of entry) = None"
    and "REMIND_REPEAT_DAYS cfg \<le> 0"
    and "start = sd - REMIND_START_DAYS_BEFORE cfg" "valid_date start"
    and "end = sd + REMIND_END_DAYS_AFTER cfg" "valid_date end"
  shows "is_due parse cfg today entry = Inr (start \<le> today \<and> today \<le> end)
     \<and> (REMIND_START_DAYS_BEFORE cfg = 0 \<and> REMIND_END_DAYS_AFTER cfg = 0
          \<longrightarrow> is_due parse cfg today entry = Inr (today = sd))"
proof -
  have s: "sched_of entry = JStr s" using assms(1,2) by (rule sched_of_primary)
  have "is_due parse cfg today entry = Inr (start \<le> today \<and> today \<le> end)"
    using is_due_window [of entry parse sd cfg today] assms by (simp add: s)
  then show ?thesis using assms(6,8) by auto
qed

theorem is_due_daily_window_witness:
  "is_due parse_iso daily_cfg (ymd2ord 2024 6 6) june_entry = Inr False
   \<and> is_due parse_iso daily_cfg (ymd2ord 2024 6 7) june_entry = Inr True
   \<and> is_due parse_iso daily_cfg (ymd2ord 2024 6 8) june_entry = Inr True
   \<and> is_due parse_iso daily_cfg (ymd2ord 2024 6 9) june_entry = Inr True
   \<and> is_due parse_iso daily_cfg (ymd2ord 2024 6 10) june_entry = Inr True
   \<and> is_due parse_iso daily_cfg (ymd2ord 2024 6 11) june_entry = Inr True
   \<and> is_due parse_iso daily_cfg (ymd2ord 2024 6 12) june_entry = Inr True
   \<and> is_due parse_iso daily_cfg (ymd2ord 2024 6 13) june_entry = Inr False
   \<and> is_due parse_iso same_day_cfg (ymd2ord 2024 6 9) june_entry = Inr False
   \<and> is_due parse_iso same_day_cfg (ymd2ord 2024 6 10) june_entry = Inr True
   \<and> is_due parse_iso same_day_cfg (ymd2ord 2024 6 11) june_entry = Inr False"
proof -
  have e: "june_entry ''scheduledDate'' = Some (JStr ''2024-06-10'')" "''2024-06-10'' \<noteq> []"
    by (simp_all add: june_entry_def)
  have c: "\<not> truthy (comp_of june_entry) \<or> try_parse parse_iso (comp_of june_entry) = None"
    by (simp add: comp_of_def june_entry_def dict_get_def py_or_def)
  have d: "is_due parse_iso daily_cfg today june_entry
      = Inr (ymd2ord 2024 6 7 \<le> today \<and> today \<le> ymd2ord 2024 6 12)" for today
    using is_due_daily_window [OF e parse_iso_june(1) c, of daily_cfg "ymd2ord 2024 6 7"
        "ymd2ord 2024 6 12" today]
    by (simp add: daily_cfg_def ymd2ord_june valid_date_def)
  have z: "is_due parse_iso same_day_cfg today june_entry = Inr (today = ymd2ord 2024 6 10)"
    for today
    using is_due_daily_window [OF e parse_iso_june(1) c, of same_day_cfg "ymd2ord 2024 6 10"
        "ymd2ord 2024 6 10" today]
    by (auto simp add: same_day_cfg_def ymd2ord_june valid_date_def)
  show ?thesis by (simp add: d z ymd2ord_june)
qed

text \<open>
  The repeat cadence within the calendar. Take an entry whose \<open>scheduledDate\<close> is a non-empty text
  that parses to the date \<open>sd\<close>, with no completion (the completion value \<open>comp\<close> of
  \<open>is_due\<close> is empty or does not parse), and settings with \<open>k = REMIND_REPEAT_DAYS > 0\<close>.
  Let \<open>start = sd - REMIND_START_DAYS_BEFORE\<close> and \<open>end = sd + REMIND_END_DAYS_AFTER\<close>,
  both dates of the calendar. Then on every day \<open>is_due\<close> returns, and it returns
  \<open>True\<close> exactly on the days \<open>start, start + k, start + 2k, \<dots>\<close> that lie in
  \<open>[start, end]\<close>.
\<close>

theorem is_due_repeat_cadence:
  assumes "entry ''scheduledDate'' = Some (JStr s)" "s \<noteq> []" "parse s = Some sd"
    and "\<not> truthy (comp_of entry) \<or> try_parse parse (comp_of entry) = None"
    and "k = REMIND_REPEAT_DAYS cfg" "0 < k"
    and "start = sd - REMIND_START_DAYS_BEFORE cfg" "valid_date start"
    and "end = sd + REMIND_END_DAYS_AFTER cfg" "valid_date end"
  shows "is_due parse cfg today entry
     = Inr (today \<in> {start + int i * k | i. True} \<inter> {start .. end})"
proof -
  have s: "sched_of entry = JStr s" using assms(1,2) by (rule sched_of_primary)
  have "is_due parse cfg today entry
      = Inr (start \<le> today \<and> today \<le> end \<and> (today - start) mod k = 0)"
    using is_due_window [of entry parse sd cfg today] assms by (simp add: s)
  also have "(start \<le> today \<and> today \<le> end \<and> (today - start) mod k = 0)
      = (today \<in> {start + int i * k | i. True} \<inter> {start .. end})"
    using cadence_iff [OF assms(6), of start today] by auto
  finally show ?thesis .
qed

theorem is_due_repeat_cadence_witness:
  "is_due parse_iso every_second_day_cfg (ymd2ord 2024 6 6) june_entry = Inr False
   \<and> is_due parse_iso every_second_day_cfg (ymd2ord 2024 6 7) june_entry = Inr True
   \<and> is_due parse_iso every_second_day_cfg (ymd2ord 2024 6 8) june_entry = Inr False
   \<and> is_due parse_iso every_second_day_cfg (ymd2ord 2024 6 9) june_entry = Inr True
   \<and> is_due parse_iso every_second_day_cfg (ymd2ord 2024 6 10) june_entry = Inr False
   \<and> is_due parse_iso every_second_day_cfg (ymd2ord 2024 6 11) june_entry = Inr True
   \<and> is_due parse_iso every_second_day_cfg (ymd2ord 2024 6 12) june_entry = Inr False
   \<and> is_due parse_iso every_second_day_cfg (ymd2ord 2024 6 13) june_entry = Inr False
   \<and> {today. is_due parse_iso every_second_day_cfg today june_entry = Inr True}
       = {ymd2ord 2024 6 7, ymd2ord 2024 6 9, ymd2ord 2024 6 11}"
proof -
  have e: "june_entry ''scheduledDate'' = Some (JStr ''2024-06-10'')" "''2024-06-10'' \<noteq> []"
    by (simp_all add: june_entry_def)
  have c: "\<not> truthy (comp_of june_entry) \<or> try_parse parse_iso (comp_of june_entry) = None"
    by (simp add: comp_of_def june_entry_def dict_get_def py_or_def)
  have "is_due parse_iso every_second_day_cfg today june_entry
      = Inr (today \<in> {739044 + int i * 2 | i. True} \<inter> {739044 .. 739049})" for today
    using is_due_repeat_cadence [OF e parse_iso_june(1) c, of 2 every_second_day_cfg
        "ymd2ord 2024 6 7" "ymd2ord 2024 6 12" today]
    by (simp add: every_second_day_cfg_def ymd2ord_june valid_date_def)
  moreover have "(today \<in> {739044 + int i * 2 | i. True} \<inter> {739044 .. 739049})
      = (today = 739044 \<or> today = 739046 \<or> today = 739048)" for today :: int
  proof
    assume "today \<in> {739044 + int i * 2 | i. True} \<inter> {739044 .. 739049}"
    then obtain i :: nat where "today = 739044 + int i * 2" "today \<le> 739049" by auto
    then show "today = 739044 \<or> today = 739046 \<or> today = 739048" by arith
  next
    assume "today = 739044 \<or> today = 739046 \<or> today = 739048"
    then have "today = 739044 + int 0 * 2 \<or> today = 739044 + int 1 * 2 \<or> today = 739044 + int 2 * 2"
      by simp
    then have "today \<in> {739044 + int i * 2 | i. True}" by blast
    moreover have "739044 \<le> today \<and> today \<le> 739049"
      using \<open>today = 739044 \<or> today = 739046 \<or> today = 739048\<close> by arith
    ultimately show "today \<in> {739044 + int i * 2 | i. True} \<inter> {739044 .. 739049}" by simp
  qed
  ultimately have d: "is_due parse_iso every_second_day_cfg today june_entry
      = Inr (today = 739044 \<or> today = 739046 \<or> today = 739048)" for today
    by simp
  show ?thesis by (auto simp add: d ymd2ord_june)
qed

text \<open>
  Claim C3 (daily reminders): with \<open>REMIND_REPEAT_DAYS \<le> 0\<close>, an entry with a parsable
  \<open>scheduledDate\<close> and no completion is due exactly on the days of the closed window
  \<open>[start, end]\<close> and on no other day. The program does not do this at the end of the
  calendar. For the entry scheduled on 9999-12-31, with reminders from three days before
  to two days after, the end of the window is no date of Python: \<open>is_due\<close> raises
  \<open>OverflowError\<close> on the scheduled day, which lies in the window, and on 2024-06-10,
  which lies outside, where the claim has \<open>True\<close> and \<open>False\<close>. The exception is caught
  nowhere, so a poll that contains the entry notifies nothing.
\<close>

theorem is_due_daily_raises_at_calendar_end:
  "last_day_entry ''scheduledDate'' = Some (JStr ''9999-12-31'')
   \<and> parse_iso ''9999-12-31'' = Some (ymd2ord 9999 12 31)
   \<and> REMIND_REPEAT_DAYS daily_cfg \<le> 0
   \<and> ymd2ord 9999 12 31 - REMIND_START_DAYS_BEFORE daily_cfg \<le> ymd2ord 9999 12 31
   \<and> ymd2ord 9999 12 31 \<le> ymd2ord 9999 12 31 + REMIND_END_DAYS_AFTER daily_cfg
   \<and> is_due parse_iso daily_cfg (ymd2ord 9999 12 31) last_day_entry = Inl OverflowError
   \<and> is_due parse_iso daily_cfg (ymd2ord 2024 6 10) last_day_entry = Inl OverflowError
   \<and> filter_and_notify parse_iso daily_cfg (ymd2ord 2024 6 10) june_ledger
        [june_entry, last_day_entry] = Inl OverflowError"
proof -
  have p: "0 < REMIND_END_DAYS_AFTER daily_cfg" by (simp add: daily_cfg_def)
  have k: "entry_key june_entry = Inr ''m-1''" "entry_key last_day_entry = Inr ''m-5''"
    by (simp_all add: entry_key_def june_entry_def last_day_entry_def dict_get_def py_or_def)
  have d: "is_due parse_iso daily_cfg (ymd2ord 2024 6 10) june_entry = Inr True"
    by (simp add: is_due_def june_entry_def daily_cfg_def dict_get_def py_or_def
        parse_iso_june ymd2ord_june date_sub_days_def date_add_days_def valid_date_def)
  have "filter_and_notify parse_iso daily_cfg (ymd2ord 2024 6 10) june_ledger
        [june_entry, last_day_entry] = Inl OverflowError"
    by (simp add: filter_and_notify_def k d last_day_overflow [OF p])
  then show ?thesis
    by (simp add: last_day_overflow [OF p] parse_iso_last_day)
      (simp add: last_day_entry_def daily_cfg_def)
qed

text \<open>
  Claim C2 (repeat cadence): with \<open>REMIND_REPEAT_DAYS = k > 0\<close>, an entry with a parsable
  \<open>scheduledDate\<close> and no completion is due exactly on the days
  \<open>start, start + k, start + 2k, \<dots>\<close> within \<open>[start, end]\<close>. The program does not do this
  at the end of the calendar. For the entry scheduled on 9999-12-31, with reminders every
  second day from three days before to two days after, \<open>is_due\<close> raises \<open>OverflowError\<close>
  on 9999-12-28 and on 9999-12-30, the days \<open>start\<close> and \<open>start + k\<close> of the window,
  instead of returning \<open>True\<close>.
\<close>

theorem is_due_cadence_raises_at_calendar_end:
  "last_day_entry ''scheduledDate'' = Some (JStr ''9999-12-31'')
   \<and> parse_iso ''9999-12-31'' = Some (ymd2ord 9999 12 31)
   \<and> REMIND_REPEAT_DAYS every_second_day_cfg = 2
   \<and> ymd2ord 9999 12 28 = ymd2ord 9999 12 31 - REMIND_START_DAYS_BEFORE every_second_day_cfg
   \<and> ymd2ord 9999 12 30 = ymd2ord 9999 12 28 + REMIND_REPEAT_DAYS every_second_day_cfg
   \<and> ymd2ord 9999 12 30 \<le> ymd2ord 9999 12 31 + REMIND_END_DAYS_AFTER every_second_day_cfg
   \<and> is_due parse_iso every_second_day_cfg (ymd2ord 9999 12 28) last_day_entry
        = Inl OverflowError
   \<and> is_due parse_iso every_second_day_cfg (ymd2ord 9999 12 30) last_day_entry
        = Inl OverflowError"
proof -
  have p: "0 < REMIND_END_DAYS_AFTER every_second_day_cfg"
    by (simp add: every_second_day_cfg_def)
  show ?thesis
    by (simp add: last_day_overflow [OF p] parse_iso_last_day ymd2ord_last_december)
      (simp add: last_day_entry_def every_second_day_cfg_def)
qed

text \<open>
  Claim C4 (completed entries are never due). If \<open>completedDate\<close> is present, non-empty
  and parses as a date, \<open>is_due\<close> returns \<open>False\<close>, whatever the other fields, the
  settings and the day are.
\<close>

theorem completed_never_due:
  assumes "entry ''completedDate'' = Some (JStr s)" "s \<noteq> []" "parse s = Some d"
  shows "is_due parse cfg today entry = Inr False"
proof (rule is_due_completed)
  have "comp_of entry = JStr s"
    using assms(1,2) by (simp add: comp_of_def dict_get_def py_or_def)
  then show "truthy (comp_of entry)" "try_parse parse (comp_of entry) \<noteq> None"
    using assms(2,3) by simp_all
qed

theorem completed_never_due_witness:
  "is_due parse_iso daily_cfg (ymd2ord 2024 6 9) completed_entry = Inr False
   \<and> is_due parse_iso daily_cfg (ymd2ord 2024 6 9) june_entry = Inr True"
proof -
  have "completed_entry ''completedDate'' = Some (JStr ''2024-06-08'')" "''2024-06-08'' \<noteq> []"
    by (simp_all add: completed_entry_def)
  then have "is_due parse_iso daily_cfg (ymd2ord 2024 6 9) completed_entry = Inr False"
    using completed_never_due [of completed_entry "''2024-06-08''" parse_iso "ymd2ord 2024 6 8"
        daily_cfg "ymd2ord 2024 6 9"] parse_iso_june(2)
    by simp
  moreover have "is_due parse_iso daily_cfg (ymd2ord 2024 6 9) june_entry = Inr True"
    by (simp add: is_due_def june_entry_def daily_cfg_def dict_get_def py_or_def
        parse_iso_june ymd2ord_june date_sub_days_def date_add_days_def valid_date_def)
  ultimately show ?thesis by simp
qed

text \<open>
  Claim C9 (the \<open>date\<close> field counts as a completion). If \<open>completedDate\<close> is missing,
  \<open>null\<close> or empty and the field \<open>date\<close> is a non-empty text that parses, \<open>is_due\<close>
  returns \<open>False\<close> on every day and for every setting, also on days inside the window
  that match the cadence, and whether or not \<open>completed_date\<close> is set.
\<close>

theorem date_field_counts_as_completion:
  assumes "\<not> truthy (dict_get entry ''completedDate'')"
    and "entry ''date'' = Some (JStr s)" "s \<noteq> []" "parse s = Some d"
  shows "is_due parse cfg today entry = Inr False"
proof (rule is_due_completed)
  have "comp_of entry = JStr s"
    using assms(1-3) by (simp add: comp_of_def dict_get_def py_or_def)
  then show "truthy (comp_of entry)" "try_parse parse (comp_of entry) \<noteq> None"
    using assms(3,4) by simp_all
qed

theorem date_field_counts_as_completion_witness:
  "is_due parse_iso daily_cfg (ymd2ord 2024 6 9) dated_entry = Inr False
   \<and> is_due parse_iso daily_cfg (ymd2ord 2024 6 9) june_entry = Inr True"
proof -
  have "\<not> truthy (dict_get dated_entry ''completedDate'')"
    "dated_entry ''date'' = Some (JStr ''2024-06-08'')" "''2024-06-08'' \<noteq> []"
    by (simp_all add: dated_entry_def june_entry_def dict_get_def)
  then have "is_due parse_iso daily_cfg (ymd2ord 2024 6 9) dated_entry = Inr False"
    using date_field_counts_as_completion [of dated_entry "''2024-06-08''" parse_iso
        "ymd2ord 2024 6 8" daily_cfg "ymd2ord 2024 6 9"] parse_iso_june(2)
    by simp
  moreover have "is_due parse_iso daily_cfg (ymd2ord 2024 6 9) june_entry = Inr True"
    by (simp add: is_due_def june_entry_def daily_cfg_def dict_get_def py_or_def
        parse_iso_june ymd2ord_june date_sub_days_def date_add_days_def valid_date_def)
  ultimately show ?thesis by simp
qed

text \<open>
  Claim C8 as stated fails: an entry without \<open>scheduledDate\<close> is still due when it
  carries the date under the spelling \<open>scheduled_date\<close>, which \<open>is_due\<close> reads when
  \<open>scheduledDate\<close> is missing or empty.
\<close>

theorem scheduled_date_alias_counterexample:
  "snake_case_entry ''scheduledDate'' = None
   \<and> is_due parse_iso same_day_cfg (ymd2ord 2024 6 10) snake_case_entry = Inr True"
  by (simp add: is_due_def snake_case_entry_def same_day_cfg_def dict_get_def py_or_def
      parse_iso_june ymd2ord_june date_sub_days_def date_add_days_def valid_date_def)

text \<open>
  Claim C8, amended (the evaluator fails closed). Let the scheduled text of an entry be
  \<open>scheduledDate\<close>, or \<open>scheduled_date\<close> when \<open>scheduledDate\<close> is missing or empty. If that
  text is missing, empty or does not parse as a date, \<open>is_due\<close> returns \<open>False\<close> and raises
  nothing, on every day and for every setting.
\<close>

theorem is_due_fails_closed:
  assumes "\<not> truthy (sched_of entry) \<or> try_parse parse (sched_of entry) = None"
  shows "is_due parse cfg today entry = Inr False"
  using assms unfolding sched_of_def by (auto simp add: is_due_def Let_def)

theorem is_due_fails_closed_witness:
  "is_due parse_iso daily_cfg (ymd2ord 2024 6 10) undated_entry = Inr False
   \<and> is_due parse_iso daily_cfg (ymd2ord 2024 6 10) blank_entry = Inr False"
proof -
  have "\<not> truthy (sched_of undated_entry) \<or> try_parse parse_iso (sched_of undated_entry) = None"
    by (simp add: sched_of_def undated_entry_def dict_get_def py_or_def parse_iso_june)
  moreover have "\<not> truthy (sched_of blank_entry) \<or> try_parse parse_iso (sched_of blank_entry) = None"
    by (simp add: sched_of_def blank_entry_def dict_get_def py_or_def)
  ultimately show ?thesis
    using is_due_fails_closed [of undated_entry parse_iso daily_cfg "ymd2ord 2024 6 10"]
      is_due_fails_closed [of blank_entry parse_iso daily_cfg "ymd2ord 2024 6 10"]
    by simp
qed

section \<open>Properties of the ledger\<close>

lemma map_of_mark_notified:
  "map_of (mark_notified path k w) k' = (if k' = k then Some w else map_of path k')"
  by (induction path k w rule: mark_notified.induct) auto

lemma keys_mark_notified:
  "fst ` set (mark_notified path k w) = insert k (fst ` set path)"
  by (induction path k w rule: mark_notified.induct) auto

lemma distinct_mark_notified:
  "distinct (map fst path) \<Longrightarrow> distinct (map fst (mark_notified path k w))"
  by (induction path k w rule: mark_notified.induct) (auto simp: keys_mark_notified)

lemma length_mark_notified:
  "length (mark_notified path k w) = (if k \<in> fst ` set path then length path else length path + 1)"
  by (induction path k w rule: mark_notified.induct) auto

lemma map_of_mark_all:
  "map_of (mark_all path ns w) k = (if k \<in> fst ` set ns then Some w else map_of path k)"
  by (induction path ns w rule: mark_all.induct) (auto simp: map_of_mark_notified)

lemma filter_key_id:
  "k \<notin> fst ` set path \<Longrightarrow> filter (\<lambda>(k', v). k' \<noteq> k) path = path"
  by (induction path) auto

lemma filter_key_absent:
  "k \<notin> fst ` set path \<Longrightarrow> filter (\<lambda>(k', v). k' = k) path = []"
  by (induction path) auto

lemma length_filter_key:
  "distinct (map fst path) \<Longrightarrow> length (filter (\<lambda>(k', v). k' = k) path) \<le> 1"
  by (induction path) (auto simp: filter_key_absent)

lemma map_of_filter_key:
  "map_of (filter (\<lambda>(k', v). k' \<noteq> k) path) k'' = (if k'' = k then None else map_of path k'')"
  by (induction path) auto

lemma isoformat_june_ordinal:
  "isoformat 739038 = ''2024-06-01''"
  "isoformat 739043 = ''2024-06-06''"
  "isoformat 739047 = ''2024-06-10''"
  "isoformat 739048 = ''2024-06-11''"
  by (simp_all add: isoformat_def ord2ymd_def pad4_def pad2_def digit_char_def
      DAYS_BEFORE_MONTH_def DAYS_IN_MONTH_def)

lemma isoformat_june:
  "isoformat (ymd2ord 2024 6 1) = ''2024-06-01''"
  "isoformat (ymd2ord 2024 6 6) = ''2024-06-06''"
  "isoformat (ymd2ord 2024 6 10) = ''2024-06-10''"
  "isoformat (ymd2ord 2024 6 11) = ''2024-06-11''"
  by (simp_all add: ymd2ord_june isoformat_june_ordinal)

text \<open>
  Claim C6 (ledger round trips). After \<open>mark_notified\<close> with key \<open>k\<close> and the ISO text
  of a date, \<open>get_last_notified\<close> on \<open>k\<close> returns that text, whether or not \<open>k\<close> had a
  row; the other keys keep their values and the keys stay distinct, so there is one row
  per key. After \<open>reset_reminder\<close> on \<open>k\<close>, \<open>get_last_notified\<close> on \<open>k\<close> returns
  \<open>None\<close>; \<open>reset_reminder\<close> returns \<open>True\<close>, also for a key that has no row, in which
  case the ledger is unchanged.
\<close>

theorem ledger_round_trip:
  "get_last_notified (mark_notified path k (isoformat d)) k = Some (isoformat d)
   \<and> (k' \<noteq> k \<longrightarrow>
        get_last_notified (mark_notified path k (isoformat d)) k' = get_last_notified path k')
   \<and> (distinct (map fst path) \<longrightarrow> distinct (map fst (mark_notified path k (isoformat d))))
   \<and> fst (reset_reminder path k) = True
   \<and> get_last_notified (snd (reset_reminder path k)) k = None
   \<and> (get_last_notified path k = None \<and> k \<noteq> ''all'' \<longrightarrow> reset_reminder path k = (True, path))"
proof -
  have "get_last_notified path k = None \<Longrightarrow> filter (\<lambda>(k', v). k' \<noteq> k) path = path"
    by (rule filter_key_id) (simp add: get_last_notified_def map_of_eq_None_iff)
  then show ?thesis
    by (simp add: get_last_notified_def map_of_mark_notified distinct_mark_notified
        reset_reminder_def map_of_filter_key)
qed

theorem ledger_round_trip_witness:
  "get_last_notified (mark_notified june_ledger ''m-2'' (isoformat (ymd2ord 2024 6 11))) ''m-2''
     = Some ''2024-06-11''
   \<and> get_last_notified (mark_notified june_ledger ''m-2'' (isoformat (ymd2ord 2024 6 11))) ''m-1''
     = Some ''2024-06-01''
   \<and> get_last_notified (mark_notified june_ledger ''m-9'' (isoformat (ymd2ord 2024 6 11))) ''m-9''
     = Some ''2024-06-11''
   \<and> distinct (map fst (mark_notified june_ledger ''m-2'' (isoformat (ymd2ord 2024 6 11))))
   \<and> get_last_notified (snd (reset_reminder june_ledger ''m-2'')) ''m-2'' = None
   \<and> reset_reminder june_ledger ''m-9'' = (True, june_ledger)"
proof -
  have "''m-1'' \<noteq> ''m-2''" "distinct (map fst june_ledger)"
    "get_last_notified june_ledger ''m-9'' = None \<and> ''m-9'' \<noteq> ''all''"
    "get_last_notified june_ledger ''m-1'' = Some ''2024-06-01''"
    by (simp_all add: june_ledger_def get_last_notified_def)
  then show ?thesis
    using ledger_round_trip [of june_ledger "''m-2''" "ymd2ord 2024 6 11" "''m-1''"]
      ledger_round_trip [of june_ledger "''m-9''" "ymd2ord 2024 6 11" "''m-1''"]
    by (simp add: isoformat_june)
qed

text \<open>
  Claim C10 (the reset argument \<open>all\<close> is reserved). \<open>reset_reminder\<close> with the argument
  \<open>all\<close> empties the ledger, so a row whose key is the text \<open>all\<close> cannot be removed alone.
  With any other argument it removes the rows with that key, at most one when keys are
  distinct, and every other key keeps its value.
\<close>

theorem reset_all_is_reserved:
  "reset_reminder path ''all'' = (True, [])
   \<and> (entry_id \<noteq> ''all'' \<longrightarrow>
        reset_reminder path entry_id = (True, filter (\<lambda>(k, v). k \<noteq> entry_id) path))
   \<and> (entry_id \<noteq> ''all'' \<and> k \<noteq> entry_id \<longrightarrow>
        get_last_notified (snd (reset_reminder path entry_id)) k = get_last_notified path k)
   \<and> (entry_id \<noteq> ''all'' \<and> distinct (map fst path) \<longrightarrow>
        length path - length (snd (reset_reminder path entry_id)) \<le> 1)"
proof -
  have "length path - length (filter (\<lambda>(k, v). k \<noteq> entry_id) path)
      = length (filter (\<lambda>(k, v). k = entry_id) path)"
    using sum_length_filter_compl [of "\<lambda>(k, v). k \<noteq> entry_id" path]
    by (simp add: case_prod_unfold)
  then show ?thesis
    using length_filter_key [of path entry_id]
    by (simp add: reset_reminder_def get_last_notified_def map_of_filter_key)
qed

theorem reset_all_is_reserved_witness:
  "get_last_notified june_ledger ''all'' = Some ''2024-06-06''
   \<and> reset_reminder june_ledger ''all'' = (True, [])
   \<and> reset_reminder june_ledger ''m-1'' = (True, [(''all'', ''2024-06-06''), (''m-2'', ''2024-06-10'')])
   \<and> get_last_notified (snd (reset_reminder june_ledger ''m-1'')) ''m-2'' = Some ''2024-06-10''
   \<and> length june_ledger - length (snd (reset_reminder june_ledger ''m-1'')) \<le> 1"
proof -
  have "''m-1'' \<noteq> ''all''" "''m-2'' \<noteq> ''m-1''" "distinct (map fst june_ledger)"
    "get_last_notified june_ledger ''all'' = Some ''2024-06-06''"
    "get_last_notified june_ledger ''m-2'' = Some ''2024-06-10''"
    "filter (\<lambda>(k, v). k \<noteq> ''m-1'') june_ledger = [(''all'', ''2024-06-06''), (''m-2'', ''2024-06-10'')]"
    by (simp_all add: june_ledger_def get_last_notified_def)
  then show ?thesis
    using reset_all_is_reserved [of june_ledger "''m-1''" "''m-2''"]
    by (simp add: june_ledger_def get_last_notified_def)
qed

text \<open>
  Claim C5 (pruning). On a ledger that holds valid dates, \<open>prune_old_entries\<close> with
  \<open>days \<le> 0\<close> returns 0 and leaves the ledger as it is. With \<open>days > 0\<close> it removes
  exactly the rows whose date is at most \<open>today - days\<close>, keeps all other rows unchanged
  and in order, and returns the number of rows removed.
\<close>

theorem prune_exact:
  assumes "valid_date today" and "\<forall>(k, d) \<in> set rows. valid_date d"
  shows "prune_old_entries (ledger_of rows) today days =
     (if days \<le> 0 then (0, ledger_of rows)
      else (int (length (filter (\<lambda>(k, d). d \<le> today - days) rows)),
            ledger_of (filter (\<lambda>(k, d). \<not> d \<le> today - days) rows)))"
proof (cases "days \<le> 0")
  case True
  then show ?thesis by (simp add: prune_old_entries_def)
next
  case pos: False
  show ?thesis
  proof (cases "valid_date (today - days)")
    case True
    have le: "(isoformat d \<le> isoformat (today - days)) = (d \<le> today - days)"
      if "(k, d) \<in> set rows" for k d
      using that assms(2) True by (intro isoformat_le_iff) auto
    have 1: "filter (\<lambda>(k, v). v \<le> isoformat (today - days)) (ledger_of rows)
        = ledger_of (filter (\<lambda>(k, d). d \<le> today - days) rows)"
      unfolding ledger_of_def filter_map
      by (rule arg_cong [where f = "map _"], rule filter_cong) (auto simp: le)
    have 2: "filter (\<lambda>(k, v). \<not> v \<le> isoformat (today - days)) (ledger_of rows)
        = ledger_of (filter (\<lambda>(k, d). \<not> d \<le> today - days) rows)"
      unfolding ledger_of_def filter_map
      by (rule arg_cong [where f = "map _"], rule filter_cong) (auto simp: le)
    show ?thesis
      using pos True by (simp add: prune_old_entries_def date_sub_days_def 1 2) (simp add: ledger_of_def)
  next
    case False
    then have "today - days < 1" using pos assms(1) by (simp add: valid_date_def)
    then have gt: "\<not> d \<le> today - days" if "(k, d) \<in> set rows" for k d
      using that assms(2) by (auto simp: valid_date_def)
    have "filter (\<lambda>(k, d). d \<le> today - days) rows = []"
      "filter (\<lambda>(k, d). \<not> d \<le> today - days) rows = rows"
      using gt by (auto simp: filter_empty_conv filter_id_conv)
    then show ?thesis
      using pos False by (simp add: prune_old_entries_def date_sub_days_def)
  qed
qed

theorem prune_exact_witness:
  "ledger_of june_rows = june_ledger
   \<and> prune_old_entries june_ledger (ymd2ord 2024 6 11) 5 = (2, [(''m-2'', ''2024-06-10'')])
   \<and> prune_old_entries june_ledger (ymd2ord 2024 6 11) 6 = (1, [(''all'', ''2024-06-06''), (''m-2'', ''2024-06-10'')])
   \<and> prune_old_entries june_ledger (ymd2ord 2024 6 11) 0 = (0, june_ledger)
   \<and> prune_old_entries june_ledger (ymd2ord 2024 6 11) 4000000 = (0, june_ledger)"
proof -
  have l: "ledger_of june_rows = june_ledger"
    by (simp add: ledger_of_def june_rows_def june_ledger_def isoformat_june)
  have v: "valid_date (ymd2ord 2024 6 11)" "\<forall>(k, d) \<in> set june_rows. valid_date d"
    by (simp_all add: valid_date_def june_rows_def ymd2ord_june)
  have p: "prune_old_entries june_ledger (ymd2ord 2024 6 11) days =
     (if days \<le> 0 then (0, june_ledger)
      else (int (length (filter (\<lambda>(k, d). d \<le> ymd2ord 2024 6 11 - days) june_rows)),
            ledger_of (filter (\<lambda>(k, d). \<not> d \<le> ymd2ord 2024 6 11 - days) june_rows)))" for days
    using prune_exact [OF v, of days] by (simp only: l)
  show ?thesis
    unfolding p
    by (simp add: l) (simp add: june_rows_def june_ledger_def ledger_of_def ymd2ord_june
        isoformat_june_ordinal)
qed

section \<open>Properties of the scheduler\<close>

lemma collect_due_set:
  "collect_due parse cfg day path acc es = Inr ns \<Longrightarrow>
   set ns = set acc \<union> {(k, e). e \<in> set es \<and> entry_key e = Inr k
      \<and> is_due parse cfg day e = Inr True
      \<and> get_last_notified path k \<noteq> Some (isoformat day)}"
proof (induction es arbitrary: acc)
  case Nil
  then show ?case by simp
next
  case (Cons e es)
  then show ?case
    by (auto split: sum.splits if_splits)
qed

lemma collect_due_total:
  "collect_due parse cfg day path acc es = Inr ns \<Longrightarrow> e \<in> set es \<Longrightarrow>
   (\<exists>k b. entry_key e = Inr k \<and> is_due parse cfg day e = Inr b)"
proof (induction es arbitrary: acc)
  case Nil
  then show ?case by simp
next
  case (Cons a es)
  then show ?case
    by (auto split: sum.splits if_splits)
qed

lemma collect_due_none:
  "(\<And>e. e \<in> set es \<Longrightarrow> \<exists>k b. entry_key e = Inr k \<and> is_due parse cfg day e = Inr b
       \<and> (b \<longrightarrow> get_last_notified path k = Some (isoformat day))) \<Longrightarrow>
   collect_due parse cfg day path acc es = Inr acc"
proof (induction es arbitrary: acc)
  case Nil
  then show ?case by simp
next
  case (Cons a es)
  have "\<exists>k b. entry_key a = Inr k \<and> is_due parse cfg day a = Inr b
       \<and> (b \<longrightarrow> get_last_notified path k = Some (isoformat day))"
    using Cons.prems by simp
  moreover have "collect_due parse cfg day path acc es = Inr acc"
    using Cons by simp
  ultimately show ?case by auto
qed

lemma filter_and_notify_ledger:
  "filter_and_notify parse cfg day path es = Inr (ns, path') \<Longrightarrow>
     collect_due parse cfg day path [] es = Inr ns \<and> path' = mark_all path ns (isoformat day)"
  by (auto simp: filter_and_notify_def Let_def split: sum.splits if_splits)

lemma filter_and_notify_keys:
  assumes "filter_and_notify parse cfg day path es = Inr (ns, path')" "(k, e) \<in> set ns"
  shows "e \<in> set es \<and> entry_key e = Inr k \<and> is_due parse cfg day e = Inr True"
  using collect_due_set [of parse cfg day path "[]" es ns] filter_and_notify_ledger [OF assms(1)]
    assms(2)
  by auto

text \<open>The sample entries, as the loop sees them on 2024-06-10.\<close>

lemma sample_keys:
  "entry_key june_entry = Inr ''m-1''"
  "entry_key completed_entry = Inr ''m-1''"
  "entry_key undated_entry = Inr ''m-4''"
  "entry_key pump_entry = Inr ''m-2''"
  "entry_key snake_case_entry = Inr ''Replace filter::2024-06-10''"
  "entry_key padded_name_entry = Inr ''Filter::2024-06-10''"
  "entry_key empty_id_entry = Inr ''Filter::2024-06-10''"
  "entry_key upper_id_entry = Inr ''m-3''"
  "entry_key id_less_entry = Inr ''Filter::2024-06-10''"
  by (simp_all add: entry_key_def june_entry_def completed_entry_def undated_entry_def pump_entry_def
      snake_case_entry_def padded_name_entry_def empty_id_entry_def upper_id_entry_def
      id_less_entry_def dict_get_def dict_get_default_def py_or_def strip_def isspace_def)

lemma sample_due:
  "is_due parse_iso daily_cfg (ymd2ord 2024 6 10) june_entry = Inr True"
  "is_due parse_iso daily_cfg (ymd2ord 2024 6 10) completed_entry = Inr False"
  "is_due parse_iso daily_cfg (ymd2ord 2024 6 10) undated_entry = Inr False"
  "is_due parse_iso daily_cfg (ymd2ord 2024 6 10) snake_case_entry = Inr True"
  "is_due parse_iso daily_cfg (ymd2ord 2024 6 10) pump_entry = Inr True"
  by (simp_all add: is_due_def june_entry_def completed_entry_def undated_entry_def pump_entry_def
      snake_case_entry_def daily_cfg_def dict_get_def py_or_def
      parse_iso_june ymd2ord_june date_sub_days_def date_add_days_def valid_date_def)

lemma sample_run:
  "filter_and_notify parse_iso daily_cfg (ymd2ord 2024 6 10) june_ledger
      [june_entry, completed_entry, pump_entry, undated_entry, snake_case_entry]
     = Inr ([(''m-1'', june_entry), (''Replace filter::2024-06-10'', snake_case_entry)],
            [(''m-1'', ''2024-06-10''), (''all'', ''2024-06-06''), (''m-2'', ''2024-06-10''),
             (''Replace filter::2024-06-10'', ''2024-06-10'')])"
  by (simp add: filter_and_notify_def Let_def sample_keys sample_due isoformat_june
      get_last_notified_def june_ledger_def)

text \<open>
  Claim C1 (at most one notification per entry and day). Whenever a run of
  \<open>filter_and_notify\<close> returns the list \<open>ns\<close> of notified pairs and the ledger \<open>path'\<close>:
  a key whose stored date was already today is not in \<open>ns\<close>, whether or not its entry is
  due; every notified key is stored with today's date in \<open>path'\<close>; and a second run on
  the same day, the same entries and the ledger \<open>path'\<close> notifies nothing and leaves
  \<open>path'\<close> unchanged.
\<close>

theorem dedup_once_per_day:
  assumes "filter_and_notify parse cfg day path entries = Inr (ns, path')"
  shows "(get_last_notified path k = Some (isoformat day) \<longrightarrow> k \<notin> fst ` set ns)
       \<and> (\<forall>(k, e) \<in> set ns. get_last_notified path' k = Some (isoformat day))
       \<and> filter_and_notify parse cfg day path' entries = Inr ([], path')"
proof -
  from assms have c: "collect_due parse cfg day path [] entries = Inr ns"
    and p: "path' = mark_all path ns (isoformat day)"
    by (simp_all add: filter_and_notify_ledger)
  have s: "set ns = {(k, e). e \<in> set entries \<and> entry_key e = Inr k
      \<and> is_due parse cfg day e = Inr True
      \<and> get_last_notified path k \<noteq> Some (isoformat day)}"
    using collect_due_set [OF c] by simp
  have g: "get_last_notified path' k = (if k \<in> fst ` set ns then Some (isoformat day)
      else get_last_notified path k)" for k
    by (simp add: p get_last_notified_def map_of_mark_all)
  have 1: "get_last_notified path k = Some (isoformat day) \<longrightarrow> k \<notin> fst ` set ns"
    using s by auto
  have 2: "\<forall>(k, e) \<in> set ns. get_last_notified path' k = Some (isoformat day)"
    using g by force
  have "collect_due parse cfg day path' [] entries = Inr []"
  proof (rule collect_due_none)
    fix e assume e: "e \<in> set entries"
    from collect_due_total [OF c e] obtain k b
      where kb: "entry_key e = Inr k" "is_due parse cfg day e = Inr b" by blast
    have "b \<longrightarrow> get_last_notified path' k = Some (isoformat day)"
    proof
      assume b
      show "get_last_notified path' k = Some (isoformat day)"
      proof (cases "get_last_notified path k = Some (isoformat day)")
        case True
        then show ?thesis by (simp add: g)
      next
        case False
        with e kb \<open>b\<close> have "(k, e) \<in> set ns" by (simp add: s)
        then have "k \<in> fst ` set ns" by force
        then show ?thesis by (simp add: g)
      qed
    qed
    with kb show "\<exists>k b. entry_key e = Inr k \<and> is_due parse cfg day e = Inr b
       \<and> (b \<longrightarrow> get_last_notified path' k = Some (isoformat day))" by blast
  qed
  then have 3: "filter_and_notify parse cfg day path' entries = Inr ([], path')"
    by (simp add: filter_and_notify_def)
  from 1 2 3 show ?thesis by blast
qed

theorem dedup_once_per_day_witness:
  "filter_and_notify parse_iso daily_cfg (ymd2ord 2024 6 10) june_ledger
      [june_entry, completed_entry, pump_entry, undated_entry, snake_case_entry]
     = Inr ([(''m-1'', june_entry), (''Replace filter::2024-06-10'', snake_case_entry)],
            [(''m-1'', ''2024-06-10''), (''all'', ''2024-06-06''), (''m-2'', ''2024-06-10''),
             (''Replace filter::2024-06-10'', ''2024-06-10'')])
   \<and> filter_and_notify parse_iso daily_cfg (ymd2ord 2024 6 10)
        [(''m-1'', ''2024-06-10''), (''all'', ''2024-06-06''), (''m-2'', ''2024-06-10''),
         (''Replace filter::2024-06-10'', ''2024-06-10'')]
        [june_entry, completed_entry, pump_entry, undated_entry, snake_case_entry]
     = Inr ([], [(''m-1'', ''2024-06-10''), (''all'', ''2024-06-06''), (''m-2'', ''2024-06-10''),
                 (''Replace filter::2024-06-10'', ''2024-06-10'')])"
  using dedup_once_per_day [OF sample_run] sample_run by simp

subsection \<open>The key of an entry\<close>

lemma strip_id:
  assumes "s \<noteq> []" "\<not> isspace (hd s)" "\<not> isspace (last s)"
  shows "strip s = s"
proof -
  have "dropWhile isspace s = s" using assms(2) by (simp add: dropWhile_eq_self_iff)
  moreover have "dropWhile isspace (rev s) = rev s"
    using assms(1,3) by (simp add: dropWhile_eq_self_iff hd_rev)
  ultimately show ?thesis by (simp add: strip_def)
qed

lemma entry_key_cong:
  assumes "\<forall>f \<in> {''id'', ''ID'', ''Id'', ''name'', ''scheduledDate'', ''scheduled_date''}. e f = e' f"
  shows "entry_key e = entry_key e'"
proof -
  have eqs: "dict_get e ''id'' = dict_get e' ''id''" "dict_get e ''ID'' = dict_get e' ''ID''"
    "dict_get e ''Id'' = dict_get e' ''Id''"
    "dict_get_default e ''name'' (JStr []) = dict_get_default e' ''name'' (JStr [])"
    "dict_get e ''scheduledDate'' = dict_get e' ''scheduledDate''"
    "dict_get e ''scheduled_date'' = dict_get e' ''scheduled_date''"
    using assms by (simp_all add: dict_get_def dict_get_default_def)
  show ?thesis unfolding entry_key_def eqs by (rule refl)
qed

text \<open>
  Claim C7 as stated fails: the key built from name and date is stripped of surrounding
  white space, an empty \<open>id\<close> is treated as absent, and the spellings \<open>ID\<close> and \<open>Id\<close> are
  read before the name is used.
\<close>

theorem entry_key_counterexample:
  "padded_name_entry ''id'' = None
   \<and> padded_name_entry ''name'' = Some (JStr '' Filter'')
   \<and> padded_name_entry ''scheduledDate'' = Some (JStr ''2024-06-10'')
   \<and> entry_key padded_name_entry \<noteq> Inr ('' Filter'' @ ''::'' @ ''2024-06-10'')
   \<and> empty_id_entry ''id'' = Some (JStr [])
   \<and> entry_key empty_id_entry \<noteq> Inr []
   \<and> upper_id_entry ''id'' = None
   \<and> upper_id_entry ''name'' = Some (JStr ''Filter'')
   \<and> upper_id_entry ''scheduledDate'' = Some (JStr ''2024-06-10'')
   \<and> entry_key upper_id_entry \<noteq> Inr (''Filter'' @ ''::'' @ ''2024-06-10'')"
  by (simp add: sample_keys) (simp add: padded_name_entry_def empty_id_entry_def upper_id_entry_def)

text \<open>
  Claim C7, amended (the key of an entry). The key is the first non-empty text among the
  fields \<open>id\<close>, \<open>ID\<close> and \<open>Id\<close>. When these are all missing or empty and \<open>name\<close> is a
  text (empty when absent), the key is \<open>name + "::" + date\<close> without leading and trailing
  white space, where \<open>date\<close> is \<open>scheduledDate\<close> when that is a non-empty text, otherwise
  \<open>scheduled_date\<close> when that is a non-empty text, and otherwise empty; this is
  \<open>name + "::" + date\<close> itself when the name does not begin and the date does not end with
  white space. The key depends on the six fields read only, so the same entry has the
  same key at every poll; and it is the key under which the scheduler notifies.
\<close>

theorem entry_key_derivation:
  "(e ''id'' = Some (JStr i) \<and> i \<noteq> [] \<longrightarrow> entry_key e = Inr i)
   \<and> (\<not> truthy (dict_get e ''id'') \<and> e ''ID'' = Some (JStr i) \<and> i \<noteq> [] \<longrightarrow> entry_key e = Inr i)
   \<and> (\<not> truthy (dict_get e ''id'') \<and> \<not> truthy (dict_get e ''ID'')
        \<and> e ''Id'' = Some (JStr i) \<and> i \<noteq> [] \<longrightarrow> entry_key e = Inr i)
   \<and> (\<not> truthy (dict_get e ''id'') \<and> \<not> truthy (dict_get e ''ID'') \<and> \<not> truthy (dict_get e ''Id'')
        \<and> dict_get_default e ''name'' (JStr []) = JStr n
        \<and> py_or (sched_of e) (JStr []) = JStr s
      \<longrightarrow> entry_key e = Inr (strip (n @ ''::'' @ s))
          \<and> ((n = [] \<or> \<not> isspace (hd n)) \<and> (s = [] \<or> \<not> isspace (last s))
               \<longrightarrow> entry_key e = Inr (n @ ''::'' @ s)))
   \<and> (e ''scheduledDate'' = Some (JStr d) \<and> d \<noteq> [] \<longrightarrow> py_or (sched_of e) (JStr []) = JStr d)
   \<and> (\<not> truthy (dict_get e ''scheduledDate'') \<and> e ''scheduled_date'' = Some (JStr d) \<and> d \<noteq> []
        \<longrightarrow> py_or (sched_of e) (JStr []) = JStr d)
   \<and> (\<not> truthy (dict_get e ''scheduledDate'') \<and> \<not> truthy (dict_get e ''scheduled_date'')
        \<longrightarrow> py_or (sched_of e) (JStr []) = JStr [])
   \<and> ((\<forall>f \<in> {''id'', ''ID'', ''Id'', ''name'', ''scheduledDate'', ''scheduled_date''}. e f = e' f)
        \<longrightarrow> entry_key e = entry_key e')
   \<and> (filter_and_notify parse cfg day path entries = Inr (ns, path') \<and> (k, e) \<in> set ns
        \<longrightarrow> entry_key e = Inr k)"
proof -
  have a: "e ''id'' = Some (JStr i) \<and> i \<noteq> [] \<longrightarrow> entry_key e = Inr i"
    by (simp add: entry_key_def dict_get_def py_or_def)
  have b: "\<not> truthy (dict_get e ''id'') \<and> e ''ID'' = Some (JStr i) \<and> i \<noteq> [] \<longrightarrow> entry_key e = Inr i"
    by (simp add: entry_key_def dict_get_def py_or_def)
  have c: "\<not> truthy (dict_get e ''id'') \<and> \<not> truthy (dict_get e ''ID'')
        \<and> e ''Id'' = Some (JStr i) \<and> i \<noteq> [] \<longrightarrow> entry_key e = Inr i"
    by (simp add: entry_key_def dict_get_def py_or_def)
  have d: "\<not> truthy (dict_get e ''id'') \<and> \<not> truthy (dict_get e ''ID'') \<and> \<not> truthy (dict_get e ''Id'')
        \<and> dict_get_default e ''name'' (JStr []) = JStr n
        \<and> py_or (sched_of e) (JStr []) = JStr s
      \<longrightarrow> entry_key e = Inr (strip (n @ ''::'' @ s))
          \<and> ((n = [] \<or> \<not> isspace (hd n)) \<and> (s = [] \<or> \<not> isspace (last s))
               \<longrightarrow> entry_key e = Inr (n @ ''::'' @ s))"
  proof (intro impI, elim conjE)
    assume h: "\<not> truthy (dict_get e ''id'')" "\<not> truthy (dict_get e ''ID'')"
      "\<not> truthy (dict_get e ''Id'')" "dict_get_default e ''name'' (JStr []) = JStr n"
      "py_or (sched_of e) (JStr []) = JStr s"
    have "py_or (py_or (dict_get e ''scheduledDate'') (dict_get e ''scheduled_date'')) (JStr [])
        = JStr s"
      using h(5) by (simp only: sched_of_def)
    with h(1-4) have k: "entry_key e = Inr (strip (n @ ''::'' @ s))"
      by (simp add: entry_key_def) (simp add: py_or_def)
    have "strip (n @ ''::'' @ s) = n @ ''::'' @ s"
      if "n = [] \<or> \<not> isspace (hd n)" "s = [] \<or> \<not> isspace (last s)"
    proof (rule strip_id)
      show "n @ ''::'' @ s \<noteq> []" by simp
      show "\<not> isspace (hd (n @ ''::'' @ s))"
        using that(1) by (cases n) (simp_all add: isspace_def)
      show "\<not> isspace (last (n @ ''::'' @ s))"
        using that(2) by (cases "s = []") (simp_all add: isspace_def)
    qed
    with k show "entry_key e = Inr (strip (n @ ''::'' @ s))
          \<and> ((n = [] \<or> \<not> isspace (hd n)) \<and> (s = [] \<or> \<not> isspace (last s))
               \<longrightarrow> entry_key e = Inr (n @ ''::'' @ s))"
      by simp
  qed
  have t1: "e ''scheduledDate'' = Some (JStr d) \<and> d \<noteq> [] \<longrightarrow> py_or (sched_of e) (JStr []) = JStr d"
    by (simp add: sched_of_def dict_get_def py_or_def)
  have t2: "\<not> truthy (dict_get e ''scheduledDate'') \<and> e ''scheduled_date'' = Some (JStr d) \<and> d \<noteq> []
        \<longrightarrow> py_or (sched_of e) (JStr []) = JStr d"
    by (simp add: sched_of_def dict_get_def py_or_def)
  have t3: "\<not> truthy (dict_get e ''scheduledDate'') \<and> \<not> truthy (dict_get e ''scheduled_date'')
        \<longrightarrow> py_or (sched_of e) (JStr []) = JStr []"
    by (simp add: sched_of_def py_or_def)
  have f: "(\<forall>f \<in> {''id'', ''ID'', ''Id'', ''name'', ''scheduledDate'', ''scheduled_date''}. e f = e' f)
        \<longrightarrow> entry_key e = entry_key e'"
    using entry_key_cong [of e e'] by blast
  have g: "filter_and_notify parse cfg day path entries = Inr (ns, path') \<and> (k, e) \<in> set ns
        \<longrightarrow> entry_key e = Inr k"
    using filter_and_notify_keys [of parse cfg day path entries ns path' k e] by blast
  show ?thesis by (intro conjI a b c d t1 t2 t3 f g)
qed

theorem entry_key_derivation_witness:
  "entry_key june_entry = Inr ''m-1''
   \<and> entry_key id_less_entry = Inr (''Filter'' @ ''::'' @ ''2024-06-10'')
   \<and> entry_key padded_name_entry = Inr (strip ('' Filter'' @ ''::'' @ ''2024-06-10''))
   \<and> entry_key snake_case_entry = Inr (''Replace filter'' @ ''::'' @ ''2024-06-10'')
   \<and> entry_key name_only_entry = Inr (''Filter'' @ ''::'' @ [])
   \<and> entry_key (id_less_entry(''itemName'' \<mapsto> JStr ''Pump'')) = entry_key id_less_entry
   \<and> entry_key pump_entry = Inr ''m-2''
   \<and> entry_key snake_case_entry = Inr ''Replace filter::2024-06-10''"
proof -
  have a: "entry_key june_entry = Inr ''m-1''"
  proof -
    have "june_entry ''id'' = Some (JStr ''m-1'') \<and> ''m-1'' \<noteq> []"
      by (simp add: june_entry_def)
    with entry_key_derivation [where e = june_entry and i = "''m-1''"] show ?thesis by blast
  qed
  have b: "entry_key id_less_entry = Inr (''Filter'' @ ''::'' @ ''2024-06-10'')"
  proof -
    have "\<not> truthy (dict_get id_less_entry ''id'') \<and> \<not> truthy (dict_get id_less_entry ''ID'')
        \<and> \<not> truthy (dict_get id_less_entry ''Id'')
        \<and> dict_get_default id_less_entry ''name'' (JStr []) = JStr ''Filter''"
      by (simp add: id_less_entry_def dict_get_def dict_get_default_def)
    moreover have "id_less_entry ''scheduledDate'' = Some (JStr ''2024-06-10'') \<and> ''2024-06-10'' \<noteq> []"
      by (simp add: id_less_entry_def)
    moreover have "(''Filter'' = [] \<or> \<not> isspace (hd ''Filter''))
        \<and> (''2024-06-10'' = [] \<or> \<not> isspace (last ''2024-06-10''))"
      by (simp add: isspace_def)
    ultimately show ?thesis
      using entry_key_derivation [where e = id_less_entry and n = "''Filter''"
          and s = "''2024-06-10''" and d = "''2024-06-10''"]
      by blast
  qed
  have c: "entry_key padded_name_entry = Inr (strip ('' Filter'' @ ''::'' @ ''2024-06-10''))"
  proof -
    have "\<not> truthy (dict_get padded_name_entry ''id'') \<and> \<not> truthy (dict_get padded_name_entry ''ID'')
        \<and> \<not> truthy (dict_get padded_name_entry ''Id'')
        \<and> dict_get_default padded_name_entry ''name'' (JStr []) = JStr '' Filter''"
      by (simp add: padded_name_entry_def dict_get_def dict_get_default_def)
    moreover have "padded_name_entry ''scheduledDate'' = Some (JStr ''2024-06-10'')
        \<and> ''2024-06-10'' \<noteq> []"
      by (simp add: padded_name_entry_def)
    ultimately show ?thesis
      using entry_key_derivation [where e = padded_name_entry and n = "'' Filter''"
          and s = "''2024-06-10''" and d = "''2024-06-10''"]
      by blast
  qed
  have d: "entry_key snake_case_entry = Inr (''Replace filter'' @ ''::'' @ ''2024-06-10'')"
  proof -
    have "\<not> truthy (dict_get snake_case_entry ''id'') \<and> \<not> truthy (dict_get snake_case_entry ''ID'')
        \<and> \<not> truthy (dict_get snake_case_entry ''Id'')
        \<and> dict_get_default snake_case_entry ''name'' (JStr []) = JStr ''Replace filter''"
      by (simp add: snake_case_entry_def dict_get_def dict_get_default_def)
    moreover have "\<not> truthy (dict_get snake_case_entry ''scheduledDate'')
        \<and> snake_case_entry ''scheduled_date'' = Some (JStr ''2024-06-10'') \<and> ''2024-06-10'' \<noteq> []"
      by (simp add: snake_case_entry_def dict_get_def)
    moreover have "(''Replace filter'' = [] \<or> \<not> isspace (hd ''Replace filter''))
        \<and> (''2024-06-10'' = [] \<or> \<not> isspace (last ''2024-06-10''))"
      by (simp add: isspace_def)
    ultimately show ?thesis
      using entry_key_derivation [where e = snake_case_entry and n = "''Replace filter''"
          and s = "''2024-06-10''" and d = "''2024-06-10''"]
      by blast
  qed
  have e: "entry_key name_only_entry = Inr (''Filter'' @ ''::'' @ [])"
  proof -
    have "\<not> truthy (dict_get name_only_entry ''id'') \<and> \<not> truthy (dict_get name_only_entry ''ID'')
        \<and> \<not> truthy (dict_get name_only_entry ''Id'')
        \<and> dict_get_default name_only_entry ''name'' (JStr []) = JStr ''Filter''"
      by (simp add: name_only_entry_def dict_get_def dict_get_default_def)
    moreover have "\<not> truthy (dict_get name_only_entry ''scheduledDate'')
        \<and> \<not> truthy (dict_get name_only_entry ''scheduled_date'')"
      by (simp add: name_only_entry_def dict_get_def)
    moreover have "(''Filter'' = [] \<or> \<not> isspace (hd ''Filter''))
        \<and> ([] = ([] :: string) \<or> \<not> isspace (last []))"
      by (simp add: isspace_def)
    ultimately show ?thesis
      using entry_key_derivation [where e = name_only_entry and n = "''Filter''" and s = "[]"]
      by blast
  qed
  have f: "entry_key (id_less_entry(''itemName'' \<mapsto> JStr ''Pump'')) = entry_key id_less_entry"
  proof -
    have "\<forall>f \<in> {''id'', ''ID'', ''Id'', ''name'', ''scheduledDate'', ''scheduled_date''}.
        (id_less_entry(''itemName'' \<mapsto> JStr ''Pump'')) f = id_less_entry f"
      by simp
    with entry_key_derivation [where e = "id_less_entry(''itemName'' \<mapsto> JStr ''Pump'')"
        and e' = id_less_entry]
    show ?thesis by blast
  qed
  have g: "entry_key pump_entry = Inr ''m-2''"
  proof -
    have "pump_entry ''id'' = Some (JStr ''m-2'') \<and> ''m-2'' \<noteq> []"
      by (simp add: pump_entry_def)
    with entry_key_derivation [where e = pump_entry and i = "''m-2''"] show ?thesis by blast
  qed
  have h: "entry_key snake_case_entry = Inr ''Replace filter::2024-06-10''"
  proof -
    have "(''Replace filter::2024-06-10'', snake_case_entry)
        \<in> set [(''m-1'', june_entry), (''Replace filter::2024-06-10'', snake_case_entry)]"
      by simp
    with sample_run entry_key_derivation [where e = snake_case_entry and parse = parse_iso
        and cfg = daily_cfg and day = "ymd2ord 2024 6 10" and path = june_ledger
        and entries = "[june_entry, completed_entry, pump_entry, undated_entry, snake_case_entry]"
        and ns = "[(''m-1'', june_entry), (''Replace filter::2024-06-10'', snake_case_entry)]"
        and k = "''Replace filter::2024-06-10''"]
    show ?thesis by blast
  qed
  from a b c d e f g h show ?thesis by (intro conjI)
qed

end
